theory Spec2Isabelle
  imports Main "HOL-Library.Multiset"
begin

section \<open>Card model (uno\_env.py, section 1)\<close>

datatype Color = RED | BLUE | GREEN | YELLOW | WILD

text \<open>
  The Python enum \<open>CardType\<close> has a member \<open>WILD\<close> as well; it is written \<open>WILD_CARD\<close>
  here, since \<open>WILD\<close> is already the colour.
\<close>

datatype CardType = NUMBER | SKIP | REVERSE | DRAW_TWO | WILD_CARD | WILD_DRAW_FOUR

datatype error = ValueError | IndexError | ZeroDivisionError

text \<open>
  The class \<open>Card\<close> has three attributes (\<open>color\<close>, \<open>value\<close>, \<open>type\<close>), never assigned
  after construction, and defines neither \<open>__eq__\<close> nor \<open>__hash__\<close>: the operator \<open>==\<close>,
  and with it \<open>list.remove\<close>, compares object identity. A card object is therefore its
  three fields together with its identity \<open>ident\<close>, and two objects are the same when they
  agree on all four; \<open>Card\<close> alone is the view of the fields, which is all that
  \<open>matches\<close>, \<open>__str__\<close> and the legality checks read.
\<close>

record Card =
  color :: Color
  cvalue :: string
  ctype :: CardType

record CardObj = Card +
  ident :: nat

definition card_fields :: "CardObj \<Rightarrow> Card" where
  "card_fields c = \<lparr>color = color c, cvalue = cvalue c, ctype = ctype c\<rparr>"

definition color_value :: "Color \<Rightarrow> string" where
  "color_value c = (case c of RED \<Rightarrow> ''R'' | BLUE \<Rightarrow> ''B'' | GREEN \<Rightarrow> ''G''
                           | YELLOW \<Rightarrow> ''Y'' | WILD \<Rightarrow> ''W'')"

text \<open>\<open>Card.__str__\<close>; the last \<open>return\<close> of the source is behind an exhaustive chain.\<close>

definition card_str :: "'a Card_scheme \<Rightarrow> string" where
  "card_str c =
     (if ctype c = NUMBER then color_value (color c) @ cvalue c
      else if ctype c = SKIP then color_value (color c) @ ''SK''
      else if ctype c = REVERSE then color_value (color c) @ ''RV''
      else if ctype c = DRAW_TWO then color_value (color c) @ ''+2''
      else if ctype c = WILD_CARD then ''WILD''
      else ''WILD+4'')"

definition matches :: "'a Card_scheme \<Rightarrow> 'b Card_scheme \<Rightarrow> bool" where
  "matches c other_card =
     (if color c = WILD \<or> color other_card = WILD then True
      else color c = color other_card \<or> cvalue c = cvalue other_card)"

section \<open>Deck builder (uno\_env.py, section 2)\<close>

definition mk :: "Color \<Rightarrow> string \<Rightarrow> CardType \<Rightarrow> Card" where
  "mk col v t = \<lparr>color = col, cvalue = v, ctype = t\<rparr>"

definition str_of_digit :: "nat \<Rightarrow> string" where
  "str_of_digit n = [char_of (48 + n)]"

definition number_cards :: "Color \<Rightarrow> Card list" where
  "number_cards col =
     mk col ''0'' NUMBER #
     concat (map (\<lambda>num. [mk col (str_of_digit num) NUMBER, mk col (str_of_digit num) NUMBER])
                 [1..<10])"

definition action_cards :: "Color \<Rightarrow> Card list" where
  "action_cards col =
     replicate 2 (mk col ''SK'' SKIP) @ replicate 2 (mk col ''RV'' REVERSE)
       @ replicate 2 (mk col ''+2'' DRAW_TWO)"

definition colors :: "Color list" where
  "colors = [RED, BLUE, GREEN, YELLOW]"

definition deck_fields :: "Card list" where
  "deck_fields =
     concat (map number_cards colors) @ concat (map action_cards colors)
       @ replicate 4 (mk WILD ''W'' WILD_CARD) @ replicate 4 (mk WILD ''+4'' WILD_DRAW_FOUR)"

text \<open>
  Every \<open>Card(...)\<close> call of \<open>create_deck\<close> allocates a new object: the identities are the
  positions in allocation order.
\<close>

definition alloc :: "nat \<Rightarrow> Card \<Rightarrow> CardObj" where
  "alloc i c = \<lparr>color = color c, cvalue = cvalue c, ctype = ctype c, ident = i\<rparr>"

definition create_deck :: "CardObj list" where
  "create_deck = map (\<lambda>(i, c). alloc i c) (enumerate 0 deck_fields)"

section \<open>Game state (uno\_env.py, section 3)\<close>

record UnoGameState =
  num_players :: int
  current_player :: int
  direction :: int
  game_over :: bool
  winner :: "int option"
  draw_pile_count :: int
  skip_next :: bool
  pending_color :: "Color option"
  last_drawn_card :: "CardObj option"
  can_play_drawn_card :: bool
  deck :: "CardObj list"
  discard_pile :: "CardObj list"
  player_hands :: "CardObj list list"
  turn_count :: int
  players_uno :: "bool list"

text \<open>\<open>UnoGameState.__init__\<close>: the only check is on the number of players.\<close>

definition UnoGameState_init :: "int \<Rightarrow> error + UnoGameState" where
  "UnoGameState_init n =
     (if \<not> (2 \<le> n \<and> n \<le> 4) then Inl ValueError
      else Inr \<lparr>num_players = n, current_player = 0, direction = 1, game_over = False,
                winner = None, draw_pile_count = 0, skip_next = False, pending_color = None,
                last_drawn_card = None, can_play_drawn_card = False, deck = [],
                discard_pile = [], player_hands = [], turn_count = 0,
                players_uno = replicate (nat n) False\<rparr>)"

text \<open>
  The position that \<open>xs[i]\<close> addresses in Python: \<open>i\<close> itself from 0 up to the length, the
  length plus \<open>i\<close> for a negative \<open>i\<close> down to minus the length, and no position otherwise,
  where Python raises IndexError.
\<close>

definition py_index :: "'a list \<Rightarrow> int \<Rightarrow> nat option" where
  "py_index xs i =
     (if 0 \<le> i \<and> i < int (length xs) then Some (nat i)
      else if - int (length xs) \<le> i \<and> i < 0 then Some (nat (int (length xs) + i))
      else None)"

text \<open>
  \<open>list.remove(card)\<close> deletes the first element equal to \<open>card\<close>, which for \<open>Card\<close> means
  the first element that is the same object, and raises ValueError (\<open>None\<close>) when there
  is none.
\<close>

fun py_remove :: "CardObj \<Rightarrow> CardObj list \<Rightarrow> CardObj list option" where
  "py_remove c [] = None"
| "py_remove c (x # xs) =
     (if x = c then Some xs
      else (case py_remove c xs of None \<Rightarrow> None | Some ys \<Rightarrow> Some (x # ys)))"

definition get_top_card :: "UnoGameState \<Rightarrow> Card option" where
  "get_top_card st =
     (if discard_pile st = [] then None
      else let top_card = last (discard_pile st) in
        if color top_card = WILD \<and> pending_color st \<noteq> None \<and> pending_color st \<noteq> Some WILD
        then Some \<lparr>color = the (pending_color st), cvalue = cvalue top_card,
                    ctype = ctype top_card\<rparr>
        else Some (card_fields top_card))"

text \<open>
  \<open>random.shuffle\<close> is the one source of nondeterminism: the permutation it applies is the
  parameter \<open>shuf\<close> of every operation that can reach it.
\<close>

definition reshuffle_deck :: "(CardObj list \<Rightarrow> CardObj list) \<Rightarrow> UnoGameState \<Rightarrow> UnoGameState" where
  "reshuffle_deck shuf st =
     (if length (discard_pile st) > 1
      then st\<lparr>deck := shuf (butlast (discard_pile st)), discard_pile := [last (discard_pile st)]\<rparr>
      else st)"

text \<open>
  \<open>draw_card\<close>: the card is popped from the deck before the hand is indexed, so an
  IndexError leaves the deck one card short.
\<close>

definition draw_card ::
  "(CardObj list \<Rightarrow> CardObj list) \<Rightarrow> UnoGameState \<Rightarrow> int \<Rightarrow> (error + CardObj option) \<times> UnoGameState" where
  "draw_card shuf st player_idx =
     (let st1 = (if deck st = [] then reshuffle_deck shuf st else st) in
      if deck st1 \<noteq> [] then
        let crd = last (deck st1); st2 = st1\<lparr>deck := butlast (deck st1)\<rparr> in
        (case py_index (player_hands st2) player_idx of
           None \<Rightarrow> (Inl IndexError, st2)
         | Some i \<Rightarrow>
             (Inr (Some crd),
              st2\<lparr>player_hands := (player_hands st2)[i := player_hands st2 ! i @ [crd]]\<rparr>))
      else (Inr None, st1))"

section \<open>Legality (uno\_env.py, section 4)\<close>

definition can_play_card :: "UnoGameState \<Rightarrow> 'a Card_scheme \<Rightarrow> Card option \<Rightarrow> bool \<Rightarrow> bool" where
  "can_play_card st crd top_card is_draw_pile =
     (case top_card of
        None \<Rightarrow> True
      | Some tc \<Rightarrow>
          if color crd = WILD then True
          else if pending_color st \<noteq> None \<and> pending_color st \<noteq> Some WILD
               then Some (color crd) = pending_color st
          else if is_draw_pile then
            (if ctype tc = DRAW_TWO
             then ctype crd = DRAW_TWO \<and> (color crd = color tc \<or> color crd = WILD)
             else if ctype tc = WILD_DRAW_FOUR then ctype crd = WILD_DRAW_FOUR
             else False)
          else matches crd tc)"

definition get_legal_actions ::
  "UnoGameState \<Rightarrow> int \<Rightarrow> error + (string \<times> CardObj option) list" where
  "get_legal_actions st player_idx =
     (let top_card = get_top_card st in
      if draw_pile_count st > 0 then
        (case py_index (player_hands st) player_idx of
           None \<Rightarrow> Inl IndexError
         | Some i \<Rightarrow>
             Inr (map (\<lambda>crd. (''play'', Some crd))
                      (filter (\<lambda>crd. top_card \<noteq> None \<and> can_play_card st crd top_card True)
                              (player_hands st ! i))
                  @ [(''draw'', None)]))
      else
        (case py_index (player_hands st) player_idx of
           None \<Rightarrow> Inl IndexError
         | Some i \<Rightarrow>
             Inr (map (\<lambda>crd. (''play'', Some crd))
                      (filter (\<lambda>crd. can_play_card st crd top_card False)
                              (player_hands st ! i))
                  @ [(''draw'', None)])))"

section \<open>Effects and turn advancement\<close>

definition apply_special_effect :: "UnoGameState \<Rightarrow> 'a Card_scheme \<Rightarrow> int \<Rightarrow> UnoGameState" where
  "apply_special_effect st crd player_idx =
     (if ctype crd = SKIP then st\<lparr>skip_next := True\<rparr>
      else if ctype crd = REVERSE then
        (let st1 = st\<lparr>direction := direction st * (- 1)\<rparr>
         in if num_players st1 = 2 then st1\<lparr>skip_next := True\<rparr> else st1)
      else if ctype crd = DRAW_TWO then st\<lparr>draw_pile_count := draw_pile_count st + 2\<rparr>
      else if ctype crd = WILD_DRAW_FOUR then st\<lparr>draw_pile_count := draw_pile_count st + 4\<rparr>
      else st)"

text \<open>
  Python's \<open>%\<close> on integers is floored, as \<open>mod\<close> on \<open>int\<close> is; with \<open>num_players = 0\<close> it
  raises ZeroDivisionError at the first assignment to \<open>current_player\<close>.
\<close>

definition step_player :: "UnoGameState \<Rightarrow> UnoGameState" where
  "step_player st =
     st\<lparr>current_player := (current_player st + direction st) mod num_players st\<rparr>"

definition advance_turn_with_skip :: "UnoGameState \<Rightarrow> (error + unit) \<times> UnoGameState" where
  "advance_turn_with_skip st =
     (if num_players st = 0 then (Inl ZeroDivisionError, st)
      else
        let st1 = (if skip_next st then step_player ((step_player st)\<lparr>skip_next := False\<rparr>)
                   else step_player st);
            st2 = st1\<lparr>turn_count := turn_count st1 + 1\<rparr>
        in (Inr (),
            if pending_color st2 \<noteq> None then
              (case get_top_card st2 of
                 None \<Rightarrow> st2
               | Some top_card \<Rightarrow>
                   if color top_card \<noteq> WILD then st2\<lparr>pending_color := None\<rparr> else st2)
            else st2))"

definition advance_turn :: "UnoGameState \<Rightarrow> (error + unit) \<times> UnoGameState" where
  "advance_turn st =
     (let st1 = st\<lparr>turn_count := turn_count st + 1\<rparr>
      in if num_players st1 = 0 then (Inl ZeroDivisionError, st1)
         else (Inr (), step_player st1))"

section \<open>Draw with option to play\<close>

text \<open>The loop \<open>for _ in range(self.draw_pile_count): self.draw_card(player_idx)\<close>.\<close>

fun draw_cards ::
  "(CardObj list \<Rightarrow> CardObj list) \<Rightarrow> nat \<Rightarrow> UnoGameState \<Rightarrow> int \<Rightarrow> (error + unit) \<times> UnoGameState" where
  "draw_cards shuf 0 st player_idx = (Inr (), st)"
| "draw_cards shuf (Suc k) st player_idx =
     (case draw_card shuf st player_idx of
        (Inl e, st1) \<Rightarrow> (Inl e, st1)
      | (Inr _, st1) \<Rightarrow> draw_cards shuf k st1 player_idx)"

text \<open>
  The second component of the result is the truth value of \<open>is_playable\<close> (Python returns
  \<open>None\<close> there when no card was drawn, which every caller tests as false).
\<close>

definition draw_with_option ::
  "(CardObj list \<Rightarrow> CardObj list) \<Rightarrow> UnoGameState \<Rightarrow> int
     \<Rightarrow> (error + CardObj option \<times> bool) \<times> UnoGameState" where
  "draw_with_option shuf st player_idx =
     (if player_idx \<noteq> current_player st then (Inr (None, False), st)
      else if draw_pile_count st > 0 then
        (case draw_cards shuf (nat (draw_pile_count st)) st player_idx of
           (Inl e, st1) \<Rightarrow> (Inl e, st1)
         | (Inr _, st1) \<Rightarrow>
             (case advance_turn (st1\<lparr>draw_pile_count := 0\<rparr>) of
                (Inl e, st2) \<Rightarrow> (Inl e, st2)
              | (Inr _, st2) \<Rightarrow> (Inr (None, False), st2)))
      else
        (case draw_card shuf st player_idx of
           (Inl e, st1) \<Rightarrow> (Inl e, st1)
         | (Inr drawn_card, st1) \<Rightarrow>
             let top_card = get_top_card st1;
                 is_playable = (case drawn_card of
                                  None \<Rightarrow> False
                                | Some crd \<Rightarrow> can_play_card st1 crd top_card False)
             in if is_playable
                then (Inr (drawn_card, True),
                      st1\<lparr>last_drawn_card := drawn_card, can_play_drawn_card := True\<rparr>)
                else (case advance_turn st1 of
                        (Inl e, st2) \<Rightarrow> (Inl e, st2)
                      | (Inr _, st2) \<Rightarrow>
                          (Inr (drawn_card, False),
                           st2\<lparr>last_drawn_card := None, can_play_drawn_card := False\<rparr>))))"

text \<open>\<open>self.players_uno[player_idx] = True\<close>\<close>

definition set_uno :: "UnoGameState \<Rightarrow> int \<Rightarrow> (error + unit) \<times> UnoGameState" where
  "set_uno st player_idx =
     (case py_index (players_uno st) player_idx of
        None \<Rightarrow> (Inl IndexError, st)
      | Some j \<Rightarrow> (Inr (), st\<lparr>players_uno := (players_uno st)[j := True]\<rparr>))"

definition is_wild_type :: "'a Card_scheme \<Rightarrow> bool" where
  "is_wild_type crd = (ctype crd = WILD_CARD \<or> ctype crd = WILD_DRAW_FOUR)"

definition play_drawn_card ::
  "UnoGameState \<Rightarrow> int \<Rightarrow> Color option \<Rightarrow> (error + bool) \<times> UnoGameState" where
  "play_drawn_card st player_idx chosen_color =
     (if player_idx \<noteq> current_player st then (Inr False, st)
      else if \<not> can_play_drawn_card st then (Inr False, st)
      else case last_drawn_card st of
        None \<Rightarrow> (Inr False, st)
      | Some crd \<Rightarrow>
          if is_wild_type crd \<and> (chosen_color = None \<or> chosen_color = Some WILD)
          then (Inr False, st)
          else
            let st1 = (if is_wild_type crd then st\<lparr>pending_color := chosen_color\<rparr> else st) in
            (case py_index (player_hands st1) player_idx of
               None \<Rightarrow> (Inl IndexError, st1)
             | Some i \<Rightarrow>
                 (case py_remove crd (player_hands st1 ! i) of
                    None \<Rightarrow> (Inl ValueError, st1)
                  | Some hand \<Rightarrow>
                      let st2 = st1\<lparr>player_hands := (player_hands st1)[i := hand]\<rparr>;
                          st3 = st2\<lparr>discard_pile := discard_pile st2 @ [crd]\<rparr>;
                          st4 = apply_special_effect st3 crd player_idx
                      in (case (if length (player_hands st4 ! i) = 1
                                then set_uno st4 player_idx else (Inr (), st4)) of
                            (Inl e, st5) \<Rightarrow> (Inl e, st5)
                          | (Inr _, st5) \<Rightarrow>
                              if length (player_hands st5 ! i) = 0
                              then (Inr True,
                                    st5\<lparr>game_over := True, winner := Some player_idx,
                                        last_drawn_card := None, can_play_drawn_card := False\<rparr>)
                              else (case advance_turn_with_skip st5 of
                                      (Inl e, st6) \<Rightarrow> (Inl e, st6)
                                    | (Inr _, st6) \<Rightarrow>
                                        (Inr True,
                                         st6\<lparr>last_drawn_card := None,
                                             can_play_drawn_card := False\<rparr>))))))"

definition end_turn_after_draw :: "UnoGameState \<Rightarrow> int \<Rightarrow> (error + bool) \<times> UnoGameState" where
  "end_turn_after_draw st player_idx =
     (if player_idx \<noteq> current_player st then (Inr False, st)
      else case advance_turn (st\<lparr>last_drawn_card := None, can_play_drawn_card := False\<rparr>) of
        (Inl e, st1) \<Rightarrow> (Inl e, st1)
      | (Inr _, st1) \<Rightarrow> (Inr True, st1))"

section \<open>The general entry point\<close>

text \<open>
  The legality test of \<open>apply_action\<close> compares the printed forms:
  \<open>any(act[0] == 'play' and str(act[1]) == str(card) for act in legal_actions)\<close>.
\<close>

definition listed_as_play :: "(string \<times> CardObj option) list \<Rightarrow> CardObj \<Rightarrow> bool" where
  "listed_as_play legal_actions crd =
     list_ex (\<lambda>act. fst act = ''play'' \<and>
                (case snd act of None \<Rightarrow> ''None'' | Some c \<Rightarrow> card_str c) = card_str crd)
             legal_actions"

definition apply_action ::
  "(CardObj list \<Rightarrow> CardObj list) \<Rightarrow> UnoGameState \<Rightarrow> int \<Rightarrow> string \<Rightarrow> CardObj option
     \<Rightarrow> Color option \<Rightarrow> (error + bool) \<times> UnoGameState" where
  "apply_action shuf st player_idx action crd_opt chosen_color =
     (if game_over st then (Inr False, st)
      else if player_idx \<noteq> current_player st then (Inr False, st)
      else if action = ''draw'' then
        (case draw_with_option shuf st player_idx of
           (Inl e, st1) \<Rightarrow> (Inl e, st1)
         | (Inr (drawn_card, is_playable), st1) \<Rightarrow>
             if is_playable then
               (case end_turn_after_draw st1 player_idx of
                  (Inl e, st2) \<Rightarrow> (Inl e, st2)
                | (Inr _, st2) \<Rightarrow> (Inr True, st2))
             else (Inr True, st1))
      else if action = ''play'' \<and> crd_opt \<noteq> None then
        (case crd_opt of
           None \<Rightarrow> (Inr False, st)
         | Some crd \<Rightarrow>
             (case get_legal_actions st player_idx of
                Inl e \<Rightarrow> (Inl e, st)
              | Inr legal_actions \<Rightarrow>
                  if \<not> listed_as_play legal_actions crd then (Inr False, st)
                  else if is_wild_type crd \<and> (chosen_color = None \<or> chosen_color = Some WILD)
                  then (Inr False, st)
                  else
                    let st1 = (if is_wild_type crd then st\<lparr>pending_color := chosen_color\<rparr>
                               else st) in
                    (case py_index (player_hands st1) player_idx of
                       None \<Rightarrow> (Inl IndexError, st1)
                     | Some i \<Rightarrow>
                         (case py_remove crd (player_hands st1 ! i) of
                            None \<Rightarrow> (Inl ValueError, st1)
                          | Some hand \<Rightarrow>
                              let st2 = st1\<lparr>player_hands := (player_hands st1)[i := hand]\<rparr>;
                                  st3 = st2\<lparr>discard_pile := discard_pile st2 @ [crd]\<rparr>;
                                  st4 = apply_special_effect st3 crd player_idx
                              in (case (if length (player_hands st4 ! i) = 1
                                        then set_uno st4 player_idx else (Inr (), st4)) of
                                    (Inl e, st5) \<Rightarrow> (Inl e, st5)
                                  | (Inr _, st5) \<Rightarrow>
                                      if length (player_hands st5 ! i) = 0
                                      then (Inr True,
                                            st5\<lparr>game_over := True, winner := Some player_idx\<rparr>)
                                      else (case advance_turn_with_skip st5 of
                                              (Inl e, st6) \<Rightarrow> (Inl e, st6)
                                            | (Inr _, st6) \<Rightarrow> (Inr True, st6)))))))
      else (Inr False, st))"

section \<open>Initialisation\<close>

text \<open>
  The inner loop \<open>for player_idx in range(self.num_players)\<close> of the deal, over the deck
  and the hands; the hands were just created, one per player, so the index is in range.
\<close>

fun deal_round ::
  "nat list \<Rightarrow> CardObj list \<times> CardObj list list \<Rightarrow> CardObj list \<times> CardObj list list" where
  "deal_round [] (d, h) = (d, h)"
| "deal_round (p # ps) (d, h) =
     deal_round ps (if d \<noteq> [] then (butlast d, h[p := h ! p @ [last d]]) else (d, h))"

fun deal ::
  "nat \<Rightarrow> nat \<Rightarrow> CardObj list \<times> CardObj list list \<Rightarrow> CardObj list \<times> CardObj list list" where
  "deal 0 n s = s"
| "deal (Suc k) n s = deal k n (deal_round [0..<n] s)"

definition unsuitable_start :: "'a Card_scheme \<Rightarrow> bool" where
  "unsuitable_start top_card =
     (color top_card = WILD \<or> ctype top_card = SKIP \<or> ctype top_card = REVERSE
        \<or> ctype top_card = DRAW_TWO)"

text \<open>
  The \<open>while\<close> loop that looks for the first discard: it cycles the deck and has no bound
  of its own, so not returning is the value \<open>None\<close>.
\<close>

partial_function (option) find_start ::
  "CardObj \<Rightarrow> CardObj list \<Rightarrow> (CardObj \<times> CardObj list) option" where
  "find_start top_card d =
     (if unsuitable_start top_card \<and> length d > 1
      then find_start (last (top_card # d)) (butlast (top_card # d))
      else Some (top_card, d))"

declare find_start.simps [code]

definition initialize_game ::
  "(CardObj list \<Rightarrow> CardObj list) \<Rightarrow> UnoGameState \<Rightarrow> UnoGameState option" where
  "initialize_game shuf st =
     (let n = nat (num_players st);
          (d1, h1) = deal 7 n (shuf create_deck, replicate n []);
          st1 = st\<lparr>deck := d1, player_hands := h1\<rparr>
      in case (if deck st1 \<noteq> [] then
                 (case find_start (last (deck st1)) (butlast (deck st1)) of
                    None \<Rightarrow> None
                  | Some (top_card, d2) \<Rightarrow>
                      Some (st1\<lparr>deck := d2, discard_pile := discard_pile st1 @ [top_card]\<rparr>))
               else Some st1) of
           None \<Rightarrow> None
         | Some st2 \<Rightarrow>
             Some (st2\<lparr>draw_pile_count := 0, skip_next := False, pending_color := None,
                       last_drawn_card := None, can_play_drawn_card := False\<rparr>))"

section \<open>Well-formed states and example states\<close>

text \<open>
  What the constructor and \<open>initialize_game\<close> establish and no operation changes: between
  two and four players, one hand and one UNO flag per player, and a turn pointer that
  names a player.
\<close>

definition wf_state :: "UnoGameState \<Rightarrow> bool" where
  "wf_state st =
     (2 \<le> num_players st \<and> num_players st \<le> 4 \<and>
      0 \<le> current_player st \<and> current_player st < num_players st \<and>
      length (player_hands st) = nat (num_players st) \<and>
      length (players_uno st) = nat (num_players st))"

definition is_perm :: "(CardObj list \<Rightarrow> CardObj list) \<Rightarrow> bool" where
  "is_perm shuf = (\<forall>xs. mset (shuf xs) = mset xs)"

text \<open>
  The state that \<open>test_specific_scenario\<close> of example\_game.py builds: three players, the
  hands and the discard pile set by hand. The objects are numbered in the order the test
  allocates them; \<open>fresh_wild\<close> is the new \<open>Card(Color.WILD, "W", CardType.WILD)\<close> that the
  test passes to \<open>apply_action\<close>.
\<close>

definition red_5 :: CardObj where "red_5 = alloc 0 (mk RED ''5'' NUMBER)"
definition wild_0 :: CardObj where "wild_0 = alloc 1 (mk WILD ''W'' WILD_CARD)"
definition blue_3 :: CardObj where "blue_3 = alloc 2 (mk BLUE ''3'' NUMBER)"
definition red_skip :: CardObj where "red_skip = alloc 3 (mk RED ''SK'' SKIP)"
definition green_draw_two :: CardObj where "green_draw_two = alloc 4 (mk GREEN ''+2'' DRAW_TWO)"
definition yellow_reverse :: CardObj where "yellow_reverse = alloc 5 (mk YELLOW ''RV'' REVERSE)"
definition red_2 :: CardObj where "red_2 = alloc 6 (mk RED ''2'' NUMBER)"
definition fresh_wild :: CardObj where "fresh_wild = alloc 7 (mk WILD ''W'' WILD_CARD)"

definition scenario :: UnoGameState where
  "scenario =
     \<lparr>num_players = 3, current_player = 0, direction = 1, game_over = False,
      winner = None, draw_pile_count = 0, skip_next = False, pending_color = None,
      last_drawn_card = None, can_play_drawn_card = False, deck = [],
      discard_pile = [red_2],
      player_hands = [[red_5, wild_0], [blue_3, red_skip], [green_draw_two, yellow_reverse]],
      turn_count = 0, players_uno = [False, False, False]\<rparr>"


text \<open>
  The statements that \<open>apply_action\<close> and \<open>play_drawn_card\<close> share word for word, from
  the removal of the card from the hand to the return, stated once for the proofs;
  \<open>play_drawn_card\<close> clears the drawn-card record on top of it.
\<close>

definition play_tail :: "UnoGameState \<Rightarrow> int \<Rightarrow> CardObj \<Rightarrow> (error + bool) \<times> UnoGameState" where
  "play_tail st1 player_idx crd =
     (case py_index (player_hands st1) player_idx of
        None \<Rightarrow> (Inl IndexError, st1)
      | Some i \<Rightarrow>
          (case py_remove crd (player_hands st1 ! i) of
             None \<Rightarrow> (Inl ValueError, st1)
           | Some hand \<Rightarrow>
               let st2 = st1\<lparr>player_hands := (player_hands st1)[i := hand]\<rparr>;
                   st3 = st2\<lparr>discard_pile := discard_pile st2 @ [crd]\<rparr>;
                   st4 = apply_special_effect st3 crd player_idx
               in (case (if length (player_hands st4 ! i) = 1
                         then set_uno st4 player_idx else (Inr (), st4)) of
                     (Inl e, st5) \<Rightarrow> (Inl e, st5)
                   | (Inr _, st5) \<Rightarrow>
                       if length (player_hands st5 ! i) = 0
                       then (Inr True, st5\<lparr>game_over := True, winner := Some player_idx\<rparr>)
                       else (case advance_turn_with_skip st5 of
                               (Inl e, st6) \<Rightarrow> (Inl e, st6)
                             | (Inr _, st6) \<Rightarrow> (Inr True, st6)))))"

definition clear_drawn :: "UnoGameState \<Rightarrow> UnoGameState" where
  "clear_drawn st = st\<lparr>last_drawn_card := None, can_play_drawn_card := False\<rparr>"

definition with_color :: "UnoGameState \<Rightarrow> CardObj \<Rightarrow> Color option \<Rightarrow> UnoGameState" where
  "with_color st crd chosen_color =
     (if is_wild_type crd then st\<lparr>pending_color := chosen_color\<rparr> else st)"

text \<open>All the cards of a state: the deck, the discard pile and every hand, as a multiset.\<close>

definition all_cards :: "UnoGameState \<Rightarrow> CardObj multiset" where
  "all_cards st = mset (deck st) + mset (discard_pile st) + mset (concat (player_hands st))"

text \<open>
  The cards a draw can reach: the deck, and the discard pile below its top card, which a
  reshuffle turns into the deck.
\<close>

definition available :: "UnoGameState \<Rightarrow> nat" where
  "available st = length (deck st) + (length (discard_pile st) - 1)"

text \<open>What drawing cards leaves alone: everything but the deck, the discard pile and the hands.\<close>

definition draw_frame :: "UnoGameState \<Rightarrow> UnoGameState \<Rightarrow> bool" where
  "draw_frame st st' =
     (num_players st' = num_players st \<and> current_player st' = current_player st \<and>
      direction st' = direction st \<and> game_over st' = game_over st \<and> winner st' = winner st \<and>
      draw_pile_count st' = draw_pile_count st \<and> skip_next st' = skip_next st \<and>
      pending_color st' = pending_color st \<and> last_drawn_card st' = last_drawn_card st \<and>
      can_play_drawn_card st' = can_play_drawn_card st \<and> turn_count st' = turn_count st \<and>
      players_uno st' = players_uno st \<and> length (player_hands st') = length (player_hands st))"

text \<open>
  The state a play leaves behind when nothing is raised: the card removed from the hand
  (\<open>hand\<close> is the hand without it) and put on the discard pile, its effect applied, the
  UNO flag set for a one-card hand, then either the win recorded or the turn advanced.
\<close>

definition after_play :: "UnoGameState \<Rightarrow> int \<Rightarrow> CardObj \<Rightarrow> CardObj list \<Rightarrow> UnoGameState" where
  "after_play st p crd hand =
     (let st4 = apply_special_effect
                  (st\<lparr>player_hands := (player_hands st)[nat p := hand],
                      discard_pile := discard_pile st @ [crd]\<rparr>) crd p;
          st5 = (if length hand = 1 then st4\<lparr>players_uno := (players_uno st4)[nat p := True]\<rparr>
                 else st4)
      in if length hand = 0 then st5\<lparr>game_over := True, winner := Some p\<rparr>
         else snd (advance_turn_with_skip st5))"

text \<open>
  A three-player state for the draw chain: the first two players each hold a red DRAW\_TWO,
  the second a WILD as well, the top card is red, and the deck holds five cards.
\<close>

definition red_draw_two_a :: CardObj where "red_draw_two_a = alloc 10 (mk RED ''+2'' DRAW_TWO)"
definition red_draw_two_b :: CardObj where "red_draw_two_b = alloc 11 (mk RED ''+2'' DRAW_TWO)"
definition green_7 :: CardObj where "green_7 = alloc 12 (mk GREEN ''7'' NUMBER)"
definition blue_9 :: CardObj where "blue_9 = alloc 13 (mk BLUE ''9'' NUMBER)"
definition yellow_1 :: CardObj where "yellow_1 = alloc 14 (mk YELLOW ''1'' NUMBER)"
definition green_skip :: CardObj where "green_skip = alloc 15 (mk GREEN ''SK'' SKIP)"
definition wild_draw_four_0 :: CardObj where
  "wild_draw_four_0 = alloc 16 (mk WILD ''+4'' WILD_DRAW_FOUR)"

definition chain_start :: UnoGameState where
  "chain_start =
     \<lparr>num_players = 3, current_player = 0, direction = 1, game_over = False,
      winner = None, draw_pile_count = 0, skip_next = False, pending_color = None,
      last_drawn_card = None, can_play_drawn_card = False,
      deck = [green_7, blue_9, yellow_1, green_skip, wild_draw_four_0],
      discard_pile = [red_2],
      player_hands = [[red_draw_two_a, red_5], [red_draw_two_b, blue_3, wild_0],
                      [yellow_reverse, green_draw_two]],
      turn_count = 0, players_uno = [False, False, False]\<rparr>"

text \<open>
  A state one play away from a win: the scenario with player 0 down to the red 5 and one
  card left in the deck. \<open>fresh_red_5\<close> is a second object with the fields of \<open>red_5\<close>.
\<close>

definition fresh_red_5 :: CardObj where "fresh_red_5 = alloc 17 (mk RED ''5'' NUMBER)"

definition last_card :: UnoGameState where
  "last_card = scenario\<lparr>player_hands := [[red_5], [blue_3, red_skip], [green_draw_two, yellow_reverse]],
                       deck := [green_7]\<rparr>"

definition won :: UnoGameState where
  "won = snd (apply_action id last_card 0 ''play'' (Some red_5) None)"

definition after_wild :: UnoGameState where
  "after_wild = snd (apply_action id scenario 0 ''play'' (Some wild_0) (Some BLUE))"

text \<open>
  The two-player game that \<open>initialize_game\<close> sets up when the shuffle leaves the deck in
  the order of \<open>create_deck\<close>.
\<close>

definition unshuffled_game :: UnoGameState where
  "unshuffled_game =
     (case UnoGameState_init 2 of
        Inr st0 \<Rightarrow> (case initialize_game id st0 of Some st \<Rightarrow> st))"

text \<open>
  The states of a game: what \<open>initialize_game\<close> returns on a newly constructed state, and
  what any call of a public mutator leaves behind, with any arguments and whatever the
  call returns or raises.
\<close>

inductive reachable :: "UnoGameState \<Rightarrow> bool" where
  start: "UnoGameState_init n = Inr st0 \<Longrightarrow> is_perm shuf \<Longrightarrow> initialize_game shuf st0 = Some st
            \<Longrightarrow> reachable st"
| by_apply_action: "reachable st \<Longrightarrow> is_perm shuf
            \<Longrightarrow> reachable (snd (apply_action shuf st p action crd_opt col))"
| by_draw_with_option: "reachable st \<Longrightarrow> is_perm shuf
            \<Longrightarrow> reachable (snd (draw_with_option shuf st p))"
| by_play_drawn_card: "reachable st \<Longrightarrow> reachable (snd (play_drawn_card st p col))"
| by_end_turn_after_draw: "reachable st \<Longrightarrow> reachable (snd (end_turn_after_draw st p))"

text \<open>
  The legality rule in the words of the specification, to be compared with what
  \<open>get_legal_actions\<close> lists. A card continues a draw chain when, for a DRAW\_TWO on top,
  it is a DRAW\_TWO whose colour equals the top card's colour or is WILD, and for a
  WILD\_DRAW\_FOUR on top, it is a WILD\_DRAW\_FOUR; nothing else continues a chain.
\<close>

definition spec_continues_chain :: "Card \<Rightarrow> 'a Card_scheme \<Rightarrow> bool" where
  "spec_continues_chain tc c =
     (if ctype tc = DRAW_TWO then ctype c = DRAW_TWO \<and> (color c = color tc \<or> color c = WILD)
      else if ctype tc = WILD_DRAW_FOUR then ctype c = WILD_DRAW_FOUR
      else False)"

definition spec_legal :: "UnoGameState \<Rightarrow> Card \<Rightarrow> 'a Card_scheme \<Rightarrow> bool" where
  "spec_legal st tc c =
     ((draw_pile_count st = 0 \<and> matches c tc \<and>
       (pending_color st = None \<or> Some (color c) = pending_color st \<or> color c = WILD))
      \<or> (draw_pile_count st > 0 \<and> spec_continues_chain tc c))"

text \<open>
  The unshuffled two-player game after player 0 has played the yellow DRAW\_TWO of the
  opening hand on the yellow 9: a draw chain of two is pending and player 1, whose turn it
  is, holds plain WILD cards.
\<close>

definition yellow_draw_two_99 :: CardObj where
  "yellow_draw_two_99 = alloc 99 (mk YELLOW ''+2'' DRAW_TWO)"

definition wild_102 :: CardObj where
  "wild_102 = alloc 102 (mk WILD ''W'' WILD_CARD)"

definition stacked :: UnoGameState where
  "stacked = snd (apply_action id unshuffled_game 0 ''play'' (Some yellow_draw_two_99) None)"

text \<open>The components of a state that legality reads.\<close>

definition legality_view ::
  "UnoGameState \<Rightarrow> int \<times> int \<times> Color option \<times> CardObj list \<times> CardObj list list" where
  "legality_view st =
     (current_player st, draw_pile_count st, pending_color st, discard_pile st, player_hands st)"

lemmas card_defs =
  red_5_def wild_0_def blue_3_def red_skip_def green_draw_two_def yellow_reverse_def
  red_2_def fresh_wild_def red_draw_two_a_def red_draw_two_b_def green_7_def blue_9_def
  yellow_1_def green_skip_def wild_draw_four_0_def fresh_red_5_def yellow_draw_two_99_def
  wild_102_def alloc_def mk_def

section \<open>Ending a turn\<close>

lemma advance_turn_ok:
  "num_players st \<noteq> 0 \<Longrightarrow>
   advance_turn st = (Inr (), step_player (st\<lparr>turn_count := turn_count st + 1\<rparr>))"
  by (simp add: advance_turn_def Let_def)

text \<open>
  Claim C10. \<open>end_turn_after_draw\<close> checks nothing but the turn: called by the current
  player it returns \<open>True\<close>, clears the drawn-card record and advances the turn by one
  step (turn counter plus one, turn pointer moved once in the current direction),
  whatever \<open>can_play_drawn_card\<close>, \<open>last_drawn_card\<close> and \<open>game_over\<close> are.
\<close>

theorem end_turn_after_draw_unconditional:
  assumes "player_idx = current_player st" and "num_players st \<noteq> 0"
  shows "end_turn_after_draw st player_idx =
           (Inr True,
            st\<lparr>last_drawn_card := None, can_play_drawn_card := False,
               turn_count := turn_count st + 1,
               current_player := (current_player st + direction st) mod num_players st\<rparr>)"
  using assms by (simp add: end_turn_after_draw_def advance_turn_ok step_player_def)

theorem end_turn_after_draw_unconditional_witness:
  "\<not> can_play_drawn_card (scenario\<lparr>game_over := True\<rparr>) \<and>
   last_drawn_card (scenario\<lparr>game_over := True\<rparr>) = None \<and>
   game_over (scenario\<lparr>game_over := True\<rparr>) \<and>
   fst (end_turn_after_draw (scenario\<lparr>game_over := True\<rparr>) 0) = Inr True \<and>
   current_player (snd (end_turn_after_draw (scenario\<lparr>game_over := True\<rparr>) 0)) = 1 \<and>
   turn_count (snd (end_turn_after_draw (scenario\<lparr>game_over := True\<rparr>) 0)) = 1"
  using end_turn_after_draw_unconditional [of 0 "scenario\<lparr>game_over := True\<rparr>"]
  by (simp add: scenario_def)

section \<open>Rule violations\<close>





lemma py_index_wf:
  "wf_state st \<Longrightarrow> py_index (player_hands st) (current_player st) = Some (nat (current_player st))"
  by (auto simp: wf_state_def py_index_def Let_def)

lemma get_legal_actions_wf:
  "wf_state st \<Longrightarrow> \<exists>legal. get_legal_actions st (current_player st) = Inr legal"
  by (simp add: get_legal_actions_def Let_def py_index_wf)












section \<open>Drawing one card\<close>

lemma can_play_card_drawn:
  "can_play_card (st\<lparr>deck := d, player_hands := h\<rparr>) c t b = can_play_card st c t b"
  by (simp add: can_play_card_def cong: if_cong split: option.split)

lemma get_top_card_drawn:
  "get_top_card (st\<lparr>deck := d, player_hands := h\<rparr>) = get_top_card st"
  by (simp add: get_top_card_def Let_def cong: if_cong)

lemma draw_card_nonempty:
  assumes "wf_state st" "deck st \<noteq> []"
  shows "draw_card shuf st (current_player st) =
    (Inr (Some (last (deck st))),
     st\<lparr>deck := butlast (deck st),
        player_hands := (player_hands st)[nat (current_player st) :=
           player_hands st ! nat (current_player st) @ [last (deck st)]]\<rparr>)"
  using assms py_index_wf[of st] by (simp add: draw_card_def Let_def)

text \<open>
  Claim C6. With no draw chain pending and a non-empty deck, \<open>draw_with_option\<close> called by
  the current player draws the last card of the deck and has exactly one of two
  outcomes: (a) the card is playable on the effective top card, the call returns the card
  with \<open>True\<close>, turn pointer and turn counter are unchanged and the card is recorded as
  the playable drawn card; (b) the card is not playable, the call returns it with
  \<open>False\<close>, the turn has advanced by one step and the drawn-card record is cleared.
\<close>

theorem draw_with_option_two_outcomes:
  assumes "wf_state st" and "player_idx = current_player st"
    and "draw_pile_count st = 0" and "deck st \<noteq> []"
  shows "let crd = last (deck st);
             playable = can_play_card st crd (get_top_card st) False;
             r = draw_with_option shuf st player_idx; st' = snd r;
             a = (playable \<and> fst r = Inr (Some crd, True) \<and>
                  current_player st' = current_player st \<and> turn_count st' = turn_count st \<and>
                  can_play_drawn_card st' \<and> last_drawn_card st' = Some crd);
             b = (\<not> playable \<and> fst r = Inr (Some crd, False) \<and>
                  current_player st' = (current_player st + direction st) mod num_players st \<and>
                  turn_count st' = turn_count st + 1 \<and>
                  \<not> can_play_drawn_card st' \<and> last_drawn_card st' = None)
         in (a \<or> b) \<and> \<not> (a \<and> b)"
proof -
  have n: "num_players st \<noteq> 0" using assms(1) by (simp add: wf_state_def)
  show ?thesis
  proof (cases "can_play_card st (last (deck st)) (get_top_card st) False")
    case True
    with assms n show ?thesis
      by (simp add: draw_with_option_def draw_card_nonempty Let_def
          can_play_card_drawn get_top_card_drawn)
  next
    case False
    with assms n show ?thesis
      by (simp add: draw_with_option_def draw_card_nonempty Let_def advance_turn_ok
          step_player_def can_play_card_drawn get_top_card_drawn)
  qed
qed

theorem draw_with_option_two_outcomes_witness:
  "wf_state (scenario\<lparr>deck := [fresh_wild]\<rparr>) \<and>
   draw_pile_count (scenario\<lparr>deck := [fresh_wild]\<rparr>) = 0 \<and>
   deck (scenario\<lparr>deck := [fresh_wild]\<rparr>) \<noteq> [] \<and>
   fst (draw_with_option id (scenario\<lparr>deck := [fresh_wild]\<rparr>) 0) = Inr (Some fresh_wild, True) \<and>
   current_player (snd (draw_with_option id (scenario\<lparr>deck := [fresh_wild]\<rparr>) 0)) = 0 \<and>
   can_play_drawn_card (snd (draw_with_option id (scenario\<lparr>deck := [fresh_wild]\<rparr>) 0))"
proof -
  let ?s = "scenario\<lparr>deck := [fresh_wild]\<rparr>"
  have w: "wf_state ?s" by (simp add: wf_state_def scenario_def)
  have c: "0 = current_player ?s" by (simp add: scenario_def)
  have d: "draw_pile_count ?s = 0" by (simp add: scenario_def)
  have e: "deck ?s \<noteq> []" by simp
  have p: "can_play_card ?s (last (deck ?s)) (get_top_card ?s) False"
    by (simp add: can_play_card_def get_top_card_def scenario_def card_defs)
  have l: "last (deck ?s) = fresh_wild" by simp
  show ?thesis
    using draw_with_option_two_outcomes[OF w c d e, of id] p w d e c
    unfolding Let_def l by simp
qed

section \<open>Plays\<close>

lemma apply_action_play:
  "apply_action shuf st player_idx ''play'' (Some crd) chosen_color =
     (if game_over st then (Inr False, st)
      else if player_idx \<noteq> current_player st then (Inr False, st)
      else case get_legal_actions st player_idx of
             Inl e \<Rightarrow> (Inl e, st)
           | Inr legal \<Rightarrow>
               if \<not> listed_as_play legal crd then (Inr False, st)
               else if is_wild_type crd \<and> (chosen_color = None \<or> chosen_color = Some WILD)
               then (Inr False, st)
               else play_tail (with_color st crd chosen_color) player_idx crd)"
  unfolding apply_action_def play_tail_def with_color_def Let_def by simp

lemma play_drawn_card_eq:
  "play_drawn_card st player_idx chosen_color =
     (if player_idx \<noteq> current_player st then (Inr False, st)
      else if \<not> can_play_drawn_card st then (Inr False, st)
      else case last_drawn_card st of
        None \<Rightarrow> (Inr False, st)
      | Some crd \<Rightarrow>
          if is_wild_type crd \<and> (chosen_color = None \<or> chosen_color = Some WILD)
          then (Inr False, st)
          else (case play_tail (with_color st crd chosen_color) player_idx crd of
                  (Inl e, s) \<Rightarrow> (Inl e, s)
                | (Inr b, s) \<Rightarrow> (Inr b, clear_drawn s)))"
  unfolding play_drawn_card_def play_tail_def with_color_def clear_drawn_def Let_def
  by (simp split: option.split prod.split sum.split)


lemma effect_frame:
  "player_hands (apply_special_effect st c p) = player_hands st"
  "deck (apply_special_effect st c p) = deck st"
  "discard_pile (apply_special_effect st c p) = discard_pile st"
  "num_players (apply_special_effect st c p) = num_players st"
  "current_player (apply_special_effect st c p) = current_player st"
  "players_uno (apply_special_effect st c p) = players_uno st"
  "pending_color (apply_special_effect st c p) = pending_color st"
  "game_over (apply_special_effect st c p) = game_over st"
  "winner (apply_special_effect st c p) = winner st"
  "turn_count (apply_special_effect st c p) = turn_count st"
  "last_drawn_card (apply_special_effect st c p) = last_drawn_card st"
  "can_play_drawn_card (apply_special_effect st c p) = can_play_drawn_card st"
  by (simp_all add: apply_special_effect_def Let_def)

lemma effect_draw_count:
  "draw_pile_count (apply_special_effect st c p) =
     draw_pile_count st + (if ctype c = DRAW_TWO then 2 else if ctype c = WILD_DRAW_FOUR then 4 else 0)"
  by (simp add: apply_special_effect_def Let_def)

lemma advance_skip_ok:
  "num_players st \<noteq> 0 \<Longrightarrow> fst (advance_turn_with_skip st) = Inr ()"
  by (simp add: advance_turn_with_skip_def Let_def)

lemma advance_skip_case:
  "num_players st \<noteq> 0 \<Longrightarrow>
   (case advance_turn_with_skip st of (Inl e, s) \<Rightarrow> f e s | (Inr u, s) \<Rightarrow> g s)
     = g (snd (advance_turn_with_skip st))"
  using advance_skip_ok[of st] by (cases "advance_turn_with_skip st") auto

lemma advance_skip_frame:
  "player_hands (snd (advance_turn_with_skip st)) = player_hands st"
  "deck (snd (advance_turn_with_skip st)) = deck st"
  "discard_pile (snd (advance_turn_with_skip st)) = discard_pile st"
  "num_players (snd (advance_turn_with_skip st)) = num_players st"
  "players_uno (snd (advance_turn_with_skip st)) = players_uno st"
  "draw_pile_count (snd (advance_turn_with_skip st)) = draw_pile_count st"
  "game_over (snd (advance_turn_with_skip st)) = game_over st"
  "winner (snd (advance_turn_with_skip st)) = winner st"
  "direction (snd (advance_turn_with_skip st)) = direction st"
  "last_drawn_card (snd (advance_turn_with_skip st)) = last_drawn_card st"
  "can_play_drawn_card (snd (advance_turn_with_skip st)) = can_play_drawn_card st"
  by (simp_all add: advance_turn_with_skip_def Let_def step_player_def split: option.split)

lemma set_uno_frame:
  assumes "set_uno st p = (r, st')"
  shows "player_hands st' = player_hands st" "deck st' = deck st"
    "discard_pile st' = discard_pile st" "num_players st' = num_players st"
    "draw_pile_count st' = draw_pile_count st" "game_over st' = game_over st"
    "winner st' = winner st" "current_player st' = current_player st"
    "pending_color st' = pending_color st" "length (players_uno st') = length (players_uno st)"
    "direction st' = direction st" "skip_next st' = skip_next st" "turn_count st' = turn_count st"
    "last_drawn_card st' = last_drawn_card st" "can_play_drawn_card st' = can_play_drawn_card st"
  using assms by (auto simp: set_uno_def split: option.splits)


lemma py_index_uno_wf:
  "wf_state st \<Longrightarrow> py_index (players_uno st) (current_player st) = Some (nat (current_player st))"
  by (auto simp: wf_state_def py_index_def Let_def)

lemma play_tail_wf:
  assumes "wf_state st" "p = current_player st"
  shows "play_tail st p crd =
           (case py_remove crd (player_hands st ! nat p) of
              None \<Rightarrow> (Inl ValueError, st)
            | Some hand \<Rightarrow> (Inr True, after_play st p crd hand))"
proof (cases "py_remove crd (player_hands st ! nat p)")
  case None
  with assms py_index_wf[of st] show ?thesis by (simp add: play_tail_def)
next
  case (Some hand)
  have n: "num_players st \<noteq> 0" and l: "nat p < length (player_hands st)"
    using assms by (auto simp: wf_state_def)
  have u: "py_index (players_uno st) p = Some (nat p)"
    using assms py_index_uno_wf[of st] by simp
  have i: "py_index (player_hands st) p = Some (nat p)"
    using assms py_index_wf[of st] by simp
  show ?thesis
    using assms(2) Some i n l u
    by (simp add: play_tail_def after_play_def Let_def set_uno_def effect_frame advance_skip_case)
qed


lemma py_remove_eq: "py_remove c xs = (if c \<in> set xs then Some (remove1 c xs) else None)"
  by (induction xs) auto

lemma wf_with_color: "wf_state (with_color st crd col) = wf_state st"
  by (simp add: with_color_def wf_state_def)

lemma with_color_frame:
  "player_hands (with_color st crd col) = player_hands st"
  "deck (with_color st crd col) = deck st"
  "discard_pile (with_color st crd col) = discard_pile st"
  "num_players (with_color st crd col) = num_players st"
  "current_player (with_color st crd col) = current_player st"
  "draw_pile_count (with_color st crd col) = draw_pile_count st"
  "game_over (with_color st crd col) = game_over st"
  by (simp_all add: with_color_def)

lemma advance_skip_player:
  "0 < num_players st \<Longrightarrow> 0 \<le> current_player (snd (advance_turn_with_skip st))"
  "0 < num_players st \<Longrightarrow> num_players st \<le> n \<Longrightarrow>
     current_player (snd (advance_turn_with_skip st)) < n"
  by (auto simp: advance_turn_with_skip_def Let_def step_player_def split: option.split
      intro: pos_mod_bound[THEN less_le_trans])

lemma after_play_frame:
  "num_players (after_play st p crd hand) = num_players st"
  "deck (after_play st p crd hand) = deck st"
  "discard_pile (after_play st p crd hand) = discard_pile st @ [crd]"
  "player_hands (after_play st p crd hand) = (player_hands st)[nat p := hand]"
  "length (players_uno (after_play st p crd hand)) = length (players_uno st)"
  "draw_pile_count (after_play st p crd hand) =
     draw_pile_count st + (if ctype crd = DRAW_TWO then 2 else if ctype crd = WILD_DRAW_FOUR then 4 else 0)"
  by (simp_all add: after_play_def Let_def advance_skip_frame effect_frame effect_draw_count)

lemma wf_after_play:
  assumes "wf_state st" "p = current_player st"
  shows "wf_state (after_play st p crd hand)"
proof -
  have "0 \<le> current_player (after_play st p crd hand) \<and>
        current_player (after_play st p crd hand) < num_players st"
    using assms advance_skip_player
    by (simp add: after_play_def Let_def effect_frame wf_state_def)
  then show ?thesis
    using assms(1) by (simp add: wf_state_def after_play_frame)
qed

lemma apply_action_play_wf:
  assumes "wf_state st"
  shows "\<exists>legal. get_legal_actions st (current_player st) = Inr legal \<and>
     apply_action shuf st p ''play'' (Some crd) col =
       (if game_over st \<or> p \<noteq> current_player st \<or> \<not> listed_as_play legal crd \<or>
           (is_wild_type crd \<and> (col = None \<or> col = Some WILD))
        then (Inr False, st)
        else if crd \<in> set (player_hands st ! nat p)
        then (Inr True, after_play (with_color st crd col) p crd (remove1 crd (player_hands st ! nat p)))
        else (Inl ValueError, with_color st crd col))"
proof -
  obtain legal where l: "get_legal_actions st (current_player st) = Inr legal"
    using get_legal_actions_wf[OF assms] by blast
  show ?thesis
  proof (cases "p = current_player st")
    case True
    have "play_tail (with_color st crd col) p crd =
         (if crd \<in> set (player_hands st ! nat p)
        then (Inr True, after_play (with_color st crd col) p crd (remove1 crd (player_hands st ! nat p)))
        else (Inl ValueError, with_color st crd col))"
      using assms True
      by (simp add: play_tail_wf wf_with_color with_color_frame py_remove_eq)
    with l True show ?thesis by (simp add: apply_action_play)
  next
    case False
    with l show ?thesis by (simp add: apply_action_play)
  qed
qed

lemma play_drawn_card_wf:
  assumes "wf_state st"
  shows "play_drawn_card st p col =
     (if p \<noteq> current_player st \<or> \<not> can_play_drawn_card st then (Inr False, st)
      else case last_drawn_card st of
        None \<Rightarrow> (Inr False, st)
      | Some crd \<Rightarrow>
          if is_wild_type crd \<and> (col = None \<or> col = Some WILD) then (Inr False, st)
          else if crd \<in> set (player_hands st ! nat p)
          then (Inr True, clear_drawn (after_play (with_color st crd col) p crd
                                      (remove1 crd (player_hands st ! nat p))))
          else (Inl ValueError, with_color st crd col))"
proof (cases "p = current_player st")
  case True
  have "\<And>crd. play_tail (with_color st crd col) p crd =
         (if crd \<in> set (player_hands st ! nat p)
        then (Inr True, after_play (with_color st crd col) p crd (remove1 crd (player_hands st ! nat p)))
        else (Inl ValueError, with_color st crd col))"
    using assms True
    by (simp add: play_tail_wf wf_with_color with_color_frame py_remove_eq)
  with True show ?thesis by (auto simp: play_drawn_card_eq split: option.split)
next
  case False
  then show ?thesis by (simp add: play_drawn_card_eq)
qed

section \<open>Draws\<close>

lemma mset_concat_update:
  "i < length hs \<Longrightarrow> mset (concat (hs[i := h])) + mset (hs ! i) = mset (concat hs) + mset h"
proof (induction hs arbitrary: i)
  case Nil
  then show ?case by simp
next
  case (Cons a hs)
  then show ?case by (cases i) (auto simp: ac_simps)
qed

lemma mset_concat_append:
  "i < length hs \<Longrightarrow> mset (concat (hs[i := hs ! i @ [c]])) = add_mset c (mset (concat hs))"
  using mset_concat_update[of i hs "hs ! i @ [c]"] by simp

lemma mset_concat_remove1:
  assumes "i < length hs" "c \<in> set (hs ! i)"
  shows "add_mset c (mset (concat (hs[i := remove1 c (hs ! i)]))) = mset (concat hs)"
proof -
  let ?r = "remove1 c (hs ! i)"
  have a: "mset (hs ! i) = add_mset c (mset ?r)"
    using assms(2) by simp
  have "mset (concat (hs[i := ?r])) + mset (hs ! i) = mset (concat hs) + mset ?r"
    using assms(1) by (rule mset_concat_update)
  then have "add_mset c (mset (concat (hs[i := ?r]))) + mset ?r = mset (concat hs) + mset ?r"
    unfolding a by (simp only: union_mset_add_mset_left union_mset_add_mset_right)
  then show ?thesis by (rule add_right_imp_eq)
qed

lemma mset_last_butlast: "xs \<noteq> [] \<Longrightarrow> mset xs = add_mset (last xs) (mset (butlast xs))"
  by (induction xs) auto

lemma is_perm_length: "is_perm shuf \<Longrightarrow> length (shuf xs) = length xs"
  by (metis is_perm_def size_mset)

lemma is_perm_mset: "is_perm shuf \<Longrightarrow> mset (shuf xs) = mset xs"
  by (simp add: is_perm_def)

text \<open>One draw by the current player of a well-formed state.\<close>

lemma draw_card_wf:
  assumes "wf_state st" "p = current_player st" "is_perm shuf"
  shows "\<exists>x st'. draw_card shuf st p = (Inr x, st') \<and> wf_state st' \<and> draw_frame st st' \<and>
           all_cards st' = all_cards st \<and>
           (\<forall>q. q \<noteq> nat p \<longrightarrow> player_hands st' ! q = player_hands st ! q) \<and>
           (if available st = 0 then x = None \<and> st' = st
            else x \<noteq> None \<and> available st' = available st - 1 \<and>
                 player_hands st' ! nat p = player_hands st ! nat p @ [the x])"
proof -
  have l: "nat p < length (player_hands st)" using assms(1,2) by (auto simp: wf_state_def)
  define st1 where "st1 = (if deck st = [] then reshuffle_deck shuf st else st)"
  have w1: "wf_state st1" "draw_frame st st1" "player_hands st1 = player_hands st"
    using assms(1) by (simp_all add: st1_def reshuffle_deck_def wf_state_def draw_frame_def)
  have a1: "all_cards st1 = all_cards st" "available st1 = available st"
  proof -
    show "available st1 = available st"
      using assms(3) by (auto simp: st1_def reshuffle_deck_def available_def is_perm_length)
    show "all_cards st1 = all_cards st"
    proof (cases "deck st = [] \<and> length (discard_pile st) > 1")
      case True
      then have "discard_pile st \<noteq> []" by auto
      from mset_last_butlast[OF this] True assms(3) show ?thesis
        by (simp add: st1_def reshuffle_deck_def all_cards_def is_perm_mset)
    next
      case False
      then show ?thesis by (auto simp: st1_def reshuffle_deck_def)
    qed
  qed
  have "length (shuf (butlast (discard_pile st))) = length (discard_pile st) - 1"
    using assms(3) by (simp add: is_perm_length)
  then have e1: "deck st1 = [] \<longleftrightarrow> available st = 0"
    by (auto simp: st1_def reshuffle_deck_def available_def)
  have i1: "py_index (player_hands st1) p = Some (nat p)"
    using py_index_wf[OF w1(1)] w1(2) assms(2) by (simp add: draw_frame_def)
  show ?thesis
  proof (cases "available st = 0")
    case True
    then have "deck st1 = []" "st1 = st"
      using e1 by (auto simp: st1_def reshuffle_deck_def available_def)
    then have "draw_card shuf st p = (Inr None, st)"
      unfolding draw_card_def st1_def[symmetric] Let_def by simp
    with True assms(1) show ?thesis by (simp add: draw_frame_def)
  next
    case False
    then have d: "deck st1 \<noteq> []" using e1 by simp
    define st' where "st' = st1\<lparr>deck := butlast (deck st1),
      player_hands := (player_hands st1)[nat p := player_hands st1 ! nat p @ [last (deck st1)]]\<rparr>"
    have r: "draw_card shuf st p = (Inr (Some (last (deck st1))), st')"
      unfolding draw_card_def st1_def[symmetric] Let_def using d i1 by (simp add: st'_def)
    have "wf_state st'" using w1(1) by (simp add: st'_def wf_state_def)
    moreover have "draw_frame st st'" using w1(2) by (simp add: st'_def draw_frame_def)
    moreover have "all_cards st' = all_cards st"
    proof -
      have "mset (deck st1) = add_mset (last (deck st1)) (mset (butlast (deck st1)))"
        using d by (rule mset_last_butlast)
      then show ?thesis
        using l a1(1) w1(3) by (simp add: st'_def all_cards_def mset_concat_append)
    qed
    moreover have "available st' = available st - 1"
      using a1(2) d by (cases "deck st1" rule: rev_cases) (auto simp: st'_def available_def)
    moreover have "player_hands st' ! nat p = player_hands st ! nat p @ [last (deck st1)]"
      using l w1(3) by (simp add: st'_def)
    moreover have "\<forall>q. q \<noteq> nat p \<longrightarrow> player_hands st' ! q = player_hands st ! q"
      using w1(3) by (simp add: st'_def)
    ultimately show ?thesis using r False by simp
  qed
qed


lemma draw_frame_refl: "draw_frame st st"
  by (simp add: draw_frame_def)

lemma draw_frame_trans: "draw_frame a b \<Longrightarrow> draw_frame b c \<Longrightarrow> draw_frame a c"
  by (simp add: draw_frame_def)

lemma draw_cards_wf:
  assumes "wf_state st" "p = current_player st" "is_perm shuf"
  shows "\<exists>st'. draw_cards shuf k st p = (Inr (), st') \<and> wf_state st' \<and> draw_frame st st' \<and>
           all_cards st' = all_cards st \<and>
           (k \<le> available st \<longrightarrow>
              length (player_hands st' ! nat p) = length (player_hands st ! nat p) + k)"
  using assms
proof (induction k arbitrary: st)
  case 0
  then show ?case by (simp add: draw_frame_refl)
next
  case (Suc k)
  obtain x st1 where d: "draw_card shuf st p = (Inr x, st1)" "wf_state st1" "draw_frame st st1"
      "all_cards st1 = all_cards st"
      "if available st = 0 then x = None \<and> st1 = st
       else x \<noteq> None \<and> available st1 = available st - 1 \<and>
            player_hands st1 ! nat p = player_hands st ! nat p @ [the x]"
    using draw_card_wf[OF Suc.prems] by blast
  have p1: "p = current_player st1" using d(3) Suc.prems(2) by (simp add: draw_frame_def)
  obtain st' where r: "draw_cards shuf k st1 p = (Inr (), st')" "wf_state st'"
      "draw_frame st1 st'" "all_cards st' = all_cards st1"
      "k \<le> available st1 \<longrightarrow>
         length (player_hands st' ! nat p) = length (player_hands st1 ! nat p) + k"
    using Suc.IH[OF d(2) p1 Suc.prems(3)] by blast
  have "Suc k \<le> available st \<longrightarrow>
          length (player_hands st' ! nat p) = length (player_hands st ! nat p) + Suc k"
  proof
    assume a: "Suc k \<le> available st"
    then have "available st \<noteq> 0" by simp
    with d(5) have "available st1 = available st - 1"
      "player_hands st1 ! nat p = player_hands st ! nat p @ [the x]" by simp_all
    with a r(5) show "length (player_hands st' ! nat p) = length (player_hands st ! nat p) + Suc k"
      by simp
  qed
  with d r draw_frame_trans[OF d(3) r(3)] show ?case by simp
qed

lemma draw_chain:
  assumes "wf_state st" "p = current_player st" "is_perm shuf" "draw_pile_count st > 0"
  shows "\<exists>st1. draw_cards shuf (nat (draw_pile_count st)) st p = (Inr (), st1) \<and>
           wf_state st1 \<and> draw_frame st st1 \<and> all_cards st1 = all_cards st \<and>
           (nat (draw_pile_count st) \<le> available st \<longrightarrow>
              length (player_hands st1 ! nat p) =
              length (player_hands st ! nat p) + nat (draw_pile_count st)) \<and>
           draw_with_option shuf st p =
             (Inr (None, False),
              st1\<lparr>draw_pile_count := 0, turn_count := turn_count st + 1,
                  current_player := (current_player st + direction st) mod num_players st\<rparr>)"
proof -
  obtain st1 where r: "draw_cards shuf (nat (draw_pile_count st)) st p = (Inr (), st1)"
      "wf_state st1" "draw_frame st st1" "all_cards st1 = all_cards st"
      "nat (draw_pile_count st) \<le> available st \<longrightarrow>
              length (player_hands st1 ! nat p) =
              length (player_hands st ! nat p) + nat (draw_pile_count st)"
    using draw_cards_wf[OF assms(1-3)] by blast
  have n: "num_players st1 \<noteq> 0" using r(2) by (simp add: wf_state_def)
  have "draw_with_option shuf st p =
             (Inr (None, False),
              st1\<lparr>draw_pile_count := 0, turn_count := turn_count st + 1,
                  current_player := (current_player st + direction st) mod num_players st\<rparr>)"
    using assms(2,4) r(1,3) n
    by (simp add: draw_with_option_def advance_turn_ok step_player_def draw_frame_def)
  with r show ?thesis by blast
qed

section \<open>The draw chain\<close>

lemma apply_action_success:
  assumes "wf_state st" "apply_action shuf st p ''play'' (Some crd) col = (Inr True, st')"
  shows "p = current_player st \<and> \<not> game_over st \<and> crd \<in> set (player_hands st ! nat p) \<and>
         st' = after_play (with_color st crd col) p crd (remove1 crd (player_hands st ! nat p))"
  using apply_action_play_wf[OF assms(1), of shuf p crd col] assms(2)
  by (auto split: if_splits)

lemma play_drawn_card_success:
  assumes "wf_state st" "play_drawn_card st p col = (Inr True, st')"
  shows "\<exists>crd. last_drawn_card st = Some crd \<and> p = current_player st \<and> can_play_drawn_card st \<and>
         crd \<in> set (player_hands st ! nat p) \<and>
         st' = clear_drawn (after_play (with_color st crd col) p crd
                             (remove1 crd (player_hands st ! nat p)))"
  using play_drawn_card_wf[OF assms(1), of p col] assms(2)
  by (auto split: if_splits option.splits)

lemma clear_drawn_frame:
  "draw_pile_count (clear_drawn st) = draw_pile_count st"
  "player_hands (clear_drawn st) = player_hands st"
  "deck (clear_drawn st) = deck st"
  "discard_pile (clear_drawn st) = discard_pile st"
  "game_over (clear_drawn st) = game_over st"
  "winner (clear_drawn st) = winner st"
  "num_players (clear_drawn st) = num_players st"
  "current_player (clear_drawn st) = current_player st"
  "players_uno (clear_drawn st) = players_uno st"
  by (simp_all add: clear_drawn_def)

text \<open>
  Claim C7. In a well-formed state, with a shuffle that permutes: a successful play of a
  DRAW\_TWO adds 2 and of a WILD\_DRAW\_FOUR adds 4 to \<open>draw_pile_count\<close>, through
  \<open>apply_action\<close> and through \<open>play_drawn_card\<close>; two successive successful DRAW\_TWO plays
  from a count of 0 leave it at 4; and \<open>draw_with_option\<close> by the current player with a
  count \<open>k > 0\<close> and at least \<open>k\<close> cards in the deck and below the top of the discard pile
  returns (no card, not playable), makes the hand exactly \<open>k\<close> cards longer, resets the
  count to 0 and advances the turn by one step, without recording a drawn card.
\<close>

theorem draw_chain_accumulates:
  assumes "wf_state st" and "is_perm shuf"
  shows
    "(apply_action shuf st p ''play'' (Some crd) col = (Inr True, st') \<longrightarrow>
        (ctype crd = DRAW_TWO \<longrightarrow> draw_pile_count st' = draw_pile_count st + 2) \<and>
        (ctype crd = WILD_DRAW_FOUR \<longrightarrow> draw_pile_count st' = draw_pile_count st + 4)) \<and>
     (play_drawn_card st p col = (Inr True, st') \<and> last_drawn_card st = Some crd \<longrightarrow>
        (ctype crd = DRAW_TWO \<longrightarrow> draw_pile_count st' = draw_pile_count st + 2) \<and>
        (ctype crd = WILD_DRAW_FOUR \<longrightarrow> draw_pile_count st' = draw_pile_count st + 4)) \<and>
     (draw_pile_count st = 0 \<and> ctype c1 = DRAW_TWO \<and> ctype c2 = DRAW_TWO \<and>
      apply_action shuf st p ''play'' (Some c1) col1 = (Inr True, st1) \<and>
      apply_action shuf st1 q ''play'' (Some c2) col2 = (Inr True, st2) \<longrightarrow>
        draw_pile_count st2 = 4) \<and>
     (p = current_player st \<and> 0 < draw_pile_count st \<and>
      nat (draw_pile_count st) \<le> available st \<longrightarrow>
        (let r = draw_with_option shuf st p; s = snd r
         in fst r = Inr (None, False) \<and>
            length (player_hands s ! nat p) =
              length (player_hands st ! nat p) + nat (draw_pile_count st) \<and>
            draw_pile_count s = 0 \<and>
            current_player s = (current_player st + direction st) mod num_players st \<and>
            turn_count s = turn_count st + 1 \<and>
            can_play_drawn_card s = can_play_drawn_card st \<and>
            last_drawn_card s = last_drawn_card st))"
proof (intro conjI impI)
  assume a: "apply_action shuf st p ''play'' (Some crd) col = (Inr True, st')"
  from apply_action_success[OF assms(1) a]
  show "ctype crd = DRAW_TWO \<Longrightarrow> draw_pile_count st' = draw_pile_count st + 2"
    and "ctype crd = WILD_DRAW_FOUR \<Longrightarrow> draw_pile_count st' = draw_pile_count st + 4"
    by (simp_all add: after_play_frame with_color_frame)
next
  assume a: "play_drawn_card st p col = (Inr True, st') \<and> last_drawn_card st = Some crd"
  from play_drawn_card_success[OF assms(1), of p col st'] a
  show "ctype crd = DRAW_TWO \<Longrightarrow> draw_pile_count st' = draw_pile_count st + 2"
    and "ctype crd = WILD_DRAW_FOUR \<Longrightarrow> draw_pile_count st' = draw_pile_count st + 4"
    by (auto simp: after_play_frame with_color_frame clear_drawn_frame)
next
  assume a: "draw_pile_count st = 0 \<and> ctype c1 = DRAW_TWO \<and> ctype c2 = DRAW_TWO \<and>
      apply_action shuf st p ''play'' (Some c1) col1 = (Inr True, st1) \<and>
      apply_action shuf st1 q ''play'' (Some c2) col2 = (Inr True, st2)"
  then have s1: "p = current_player st"
    "st1 = after_play (with_color st c1 col1) p c1 (remove1 c1 (player_hands st ! nat p))"
    using apply_action_success[OF assms(1), of shuf p c1 col1 st1] by simp_all
  have w1: "wf_state st1"
    unfolding s1(2) using assms(1) s1(1)
    by (intro wf_after_play) (simp_all add: wf_with_color with_color_frame)
  have "draw_pile_count st1 = 2"
    using a by (simp add: s1(2) after_play_frame with_color_frame)
  moreover have "draw_pile_count st2 = draw_pile_count st1 + 2"
    using apply_action_success[OF w1, of shuf q c2 col2 st2] a
    by (simp add: after_play_frame with_color_frame)
  ultimately show "draw_pile_count st2 = 4" by simp
next
  assume a: "p = current_player st \<and> 0 < draw_pile_count st \<and>
      nat (draw_pile_count st) \<le> available st"
  obtain s1 where r: "wf_state s1" "draw_frame st s1"
      "length (player_hands s1 ! nat p) =
              length (player_hands st ! nat p) + nat (draw_pile_count st)"
      "draw_with_option shuf st p =
             (Inr (None, False),
              s1\<lparr>draw_pile_count := 0, turn_count := turn_count st + 1,
                  current_player := (current_player st + direction st) mod num_players st\<rparr>)"
    using draw_chain[OF assms(1) _ assms(2), of p] a by blast
  show "let r = draw_with_option shuf st p; s = snd r
         in fst r = Inr (None, False) \<and>
            length (player_hands s ! nat p) =
              length (player_hands st ! nat p) + nat (draw_pile_count st) \<and>
            draw_pile_count s = 0 \<and>
            current_player s = (current_player st + direction st) mod num_players st \<and>
            turn_count s = turn_count st + 1 \<and>
            can_play_drawn_card s = can_play_drawn_card st \<and>
            last_drawn_card s = last_drawn_card st"
    using r(2,3) by (simp add: r(4) Let_def draw_frame_def)
qed


lemma is_perm_id: "is_perm id"
  by (simp add: is_perm_def)

lemma chain_eval:
  "fst (apply_action id chain_start 0 ''play'' (Some red_draw_two_a) None) = Inr True"
  "fst (apply_action id (snd (apply_action id chain_start 0 ''play'' (Some red_draw_two_a) None))
          1 ''play'' (Some red_draw_two_b) None) = Inr True"
  by code_simp+


lemma chain_eval2:
  "wf_state (snd (apply_action id (snd (apply_action id chain_start 0 ''play'' (Some red_draw_two_a) None))
          1 ''play'' (Some red_draw_two_b) None))"
  "current_player (snd (apply_action id (snd (apply_action id chain_start 0 ''play'' (Some red_draw_two_a) None))
          1 ''play'' (Some red_draw_two_b) None)) = 2"
  "available (snd (apply_action id (snd (apply_action id chain_start 0 ''play'' (Some red_draw_two_a) None))
          1 ''play'' (Some red_draw_two_b) None)) = 7"
  "length (player_hands (snd (apply_action id (snd (apply_action id chain_start 0 ''play'' (Some red_draw_two_a) None))
          1 ''play'' (Some red_draw_two_b) None)) ! 2) = 2"
  by code_simp+

theorem draw_chain_accumulates_witness:
  "draw_pile_count (snd (apply_action id chain_start 0 ''play'' (Some red_draw_two_a) None)) = 2 \<and>
   draw_pile_count (snd (apply_action id
      (snd (apply_action id chain_start 0 ''play'' (Some red_draw_two_a) None))
      1 ''play'' (Some red_draw_two_b) None)) = 4 \<and>
   fst (draw_with_option id (snd (apply_action id
      (snd (apply_action id chain_start 0 ''play'' (Some red_draw_two_a) None))
      1 ''play'' (Some red_draw_two_b) None)) 2) = Inr (None, False) \<and>
   length (player_hands (snd (draw_with_option id (snd (apply_action id
      (snd (apply_action id chain_start 0 ''play'' (Some red_draw_two_a) None))
      1 ''play'' (Some red_draw_two_b) None)) 2)) ! 2) = 6 \<and>
   draw_pile_count (snd (draw_with_option id (snd (apply_action id
      (snd (apply_action id chain_start 0 ''play'' (Some red_draw_two_a) None))
      1 ''play'' (Some red_draw_two_b) None)) 2)) = 0"
proof -
  let ?S1 = "snd (apply_action id chain_start 0 ''play'' (Some red_draw_two_a) None)"
  let ?S2 = "snd (apply_action id ?S1 1 ''play'' (Some red_draw_two_b) None)"
  have w0: "wf_state chain_start" by (simp add: wf_state_def chain_start_def)
  have z: "draw_pile_count chain_start = 0" by (simp add: chain_start_def)
  have t: "ctype red_draw_two_a = DRAW_TWO" "ctype red_draw_two_b = DRAW_TWO"
    by (simp_all add: card_defs)
  have e1: "apply_action id chain_start 0 ''play'' (Some red_draw_two_a) None = (Inr True, ?S1)"
    using chain_eval(1) by (simp add: prod_eq_iff)
  have e2: "apply_action id ?S1 1 ''play'' (Some red_draw_two_b) None = (Inr True, ?S2)"
    using chain_eval(2) by (simp add: prod_eq_iff)
  have a: "draw_pile_count ?S1 = 2"
    using draw_chain_accumulates[OF w0 is_perm_id, where p = 0 and crd = red_draw_two_a
        and col = None and st' = "?S1", THEN conjunct1, THEN mp, OF e1] t z by simp
  have c: "draw_pile_count ?S2 = 4"
    using draw_chain_accumulates[OF w0 is_perm_id, where p = 0 and ?c1.0 = red_draw_two_a
        and ?c2.0 = red_draw_two_b and ?col1.0 = None and ?col2.0 = None and ?st1.0 = "?S1"
        and q = 1 and ?st2.0 = "?S2",
        THEN conjunct2, THEN conjunct2, THEN conjunct1, THEN mp] z t e1 e2 by blast
  have d: "2 = current_player ?S2 \<and> 0 < draw_pile_count ?S2 \<and>
           nat (draw_pile_count ?S2) \<le> available ?S2"
    using chain_eval2 c by simp
  note r = draw_chain_accumulates[OF chain_eval2(1) is_perm_id, where p = 2,
        THEN conjunct2, THEN conjunct2, THEN conjunct2, THEN mp, OF d]
  show ?thesis using a c r chain_eval2(4) by (simp add: Let_def)
qed

section \<open>The pending colour after a wild play\<close>

lemma advance_skip_pending:
  assumes "discard_pile st \<noteq> []" "pending_color st \<noteq> Some WILD" "num_players st \<noteq> 0"
  shows "pending_color (snd (advance_turn_with_skip st)) = None"
  using assms
  by (auto simp: advance_turn_with_skip_def Let_def step_player_def get_top_card_def card_fields_def
      split: option.split)


lemma apply_action_success_color:
  assumes "wf_state st" "apply_action shuf st p ''play'' (Some crd) col = (Inr True, st')"
  shows "\<not> (is_wild_type crd \<and> (col = None \<or> col = Some WILD))"
  using apply_action_play_wf[OF assms(1), of shuf p crd col] assms(2)
  by (auto split: if_splits)

lemma play_clears_pending_color:
  assumes "wf_state st" "pending_color st \<noteq> Some WILD"
    and "apply_action shuf st p ''play'' (Some crd) col = (Inr True, st')" "\<not> game_over st'"
  shows "pending_color st' = None"
proof -
  let ?hand = "remove1 crd (player_hands st ! nat p)"
  let ?st1 = "with_color st crd col"
  have s: "st' = after_play ?st1 p crd ?hand"
    using apply_action_success[OF assms(1,3)] by simp
  have c: "pending_color ?st1 \<noteq> Some WILD"
    using apply_action_success_color[OF assms(1,3)] assms(2) by (auto simp: with_color_def)
  have n: "num_players st \<noteq> 0" using assms(1) by (simp add: wf_state_def)
  have l: "length ?hand \<noteq> 0"
    using assms(4) by (auto simp: s after_play_def Let_def)
  show ?thesis
    unfolding s after_play_def Let_def using l c n
    by (simp add: advance_skip_pending effect_frame with_color_frame)
qed

text \<open>
  Claim C1. The scenario of \<open>test_specific_scenario\<close>, with the WILD object of player 0's
  hand played and BLUE chosen: the call succeeds and the turn passes to player 1, but
  \<open>_advance_turn_with_skip\<close> tests the colour of the card that \<open>get_top_card\<close> returns,
  which already carries the chosen colour, so \<open>pending_color\<close> is cleared in the same call;
  the top card is then WILD-coloured and player 1 may play the red SKIP as well as the
  blue 3. By \<open>play_clears_pending_color\<close> this is so after every play that does not end
  the game.
\<close>

theorem wild_play_pending_color_lost:
  "apply_action id scenario 0 ''play'' (Some wild_0) (Some BLUE) = (Inr True, after_wild) \<and>
   current_player after_wild = 1 \<and>
   discard_pile after_wild = [red_2, wild_0] \<and>
   pending_color after_wild = None \<and>
   get_legal_actions after_wild 1 =
     Inr [(''play'', Some blue_3), (''play'', Some red_skip), (''draw'', None)]"
  by code_simp

section \<open>After the game is over\<close>

lemma winning_play:
  assumes "wf_state st" "apply_action shuf st p ''play'' (Some crd) col = (Inr True, st')"
    and "player_hands st' ! nat p = []"
  shows "game_over st' \<and> winner st' = Some p"
proof -
  let ?hand = "remove1 crd (player_hands st ! nat p)"
  have s: "p = current_player st" "st' = after_play (with_color st crd col) p crd ?hand"
    using apply_action_success[OF assms(1,2)] by simp_all
  have "nat p < length (player_hands st)" using assms(1) s(1) by (auto simp: wf_state_def)
  then have "?hand = []"
    using assms(3) by (simp add: s(2) after_play_frame with_color_frame)
  then show ?thesis by (simp add: s(2) after_play_def Let_def)
qed

lemma apply_action_after_game_over:
  "game_over st \<Longrightarrow> apply_action shuf st p action crd_opt col = (Inr False, st)"
  by (simp add: apply_action_def)

text \<open>
  Claim C3. A play that empties the hand sets \<open>game_over\<close> and \<open>winner\<close> (\<open>winning_play\<close>), and
  \<open>apply_action\<close> then fails without a change (\<open>apply_action_after_game_over\<close>). But
  \<open>draw_with_option\<close> has no test of \<open>game_over\<close>: here player 0 wins with the red 5, the
  turn pointer stays on player 0, and a call of \<open>draw_with_option\<close> by player 0 draws the
  green 7 into the empty hand and advances the turn.
\<close>

theorem draw_after_game_over:
  "apply_action id last_card 0 ''play'' (Some red_5) None = (Inr True, won) \<and>
   game_over won \<and> winner won = Some 0 \<and> current_player won = 0 \<and>
   player_hands won = [[], [blue_3, red_skip], [green_draw_two, yellow_reverse]] \<and>
   deck won = [green_7] \<and>
   apply_action id won 0 ''draw'' None None = (Inr False, won) \<and>
   draw_with_option id won 0 =
     (Inr (Some green_7, False),
      won\<lparr>deck := [], player_hands := [[green_7], [blue_3, red_skip], [green_draw_two, yellow_reverse]],
          current_player := 1, turn_count := 1\<rparr>)"
  by code_simp

section \<open>Cards are compared as objects\<close>

text \<open>
  Claim C5. In the scenario the red 5 of player 0's hand is a legal play, and
  \<open>fresh_red_5\<close> is another object with the same colour, value and type. The legality test
  of \<open>apply_action\<close> compares printed forms and lets it pass, and \<open>list.remove\<close>, which
  compares objects, raises ValueError: the call does not succeed and nothing is played.
  With an equal copy of the WILD, as \<open>test_specific_scenario\<close> passes, \<open>pending_color\<close> has
  been assigned before the exception.
\<close>

theorem equal_valued_card_raises:
  "card_fields fresh_red_5 = card_fields red_5 \<and> fresh_red_5 \<noteq> red_5 \<and>
   get_legal_actions scenario 0 =
     Inr [(''play'', Some red_5), (''play'', Some wild_0), (''draw'', None)] \<and>
   fst (apply_action id scenario 0 ''play'' (Some red_5) None) = Inr True \<and>
   apply_action id scenario 0 ''play'' (Some fresh_red_5) None = (Inl ValueError, scenario) \<and>
   apply_action id scenario 0 ''play'' (Some fresh_wild) (Some BLUE) =
     (Inl ValueError, scenario\<lparr>pending_color := Some BLUE\<rparr>)"
  by code_simp

section \<open>What every mutator preserves\<close>

lemma all_cards_with_color: "all_cards (with_color st crd col) = all_cards st"
  by (simp add: all_cards_def with_color_frame)

lemma all_cards_clear_drawn: "all_cards (clear_drawn st) = all_cards st"
  by (simp add: all_cards_def clear_drawn_frame)

lemma wf_clear_drawn: "wf_state (clear_drawn st) = wf_state st"
  by (simp add: wf_state_def clear_drawn_frame)

lemma all_cards_after_play:
  assumes "nat p < length (player_hands st)" "crd \<in> set (player_hands st ! nat p)"
  shows "all_cards (after_play st p crd (remove1 crd (player_hands st ! nat p))) = all_cards st"
  using mset_concat_remove1[OF assms]
  by (simp add: all_cards_def after_play_frame)

lemma step_player_wf:
  assumes "wf_state st"
  shows "wf_state (step_player st)"
  using assms by (simp add: wf_state_def step_player_def)

lemma advance_turn_wf:
  assumes "wf_state st"
  shows "fst (advance_turn st) = Inr ()" "wf_state (snd (advance_turn st))"
    "all_cards (snd (advance_turn st)) = all_cards st"
proof -
  have n: "num_players st \<noteq> 0" using assms by (simp add: wf_state_def)
  have w: "wf_state (st\<lparr>turn_count := turn_count st + 1\<rparr>)"
    using assms by (simp add: wf_state_def)
  show "fst (advance_turn st) = Inr ()" using n by (simp add: advance_turn_ok)
  show "wf_state (snd (advance_turn st))"
    using n step_player_wf[OF w] by (simp add: advance_turn_ok)
  show "all_cards (snd (advance_turn st)) = all_cards st"
    using n by (simp add: advance_turn_ok step_player_def all_cards_def)
qed

lemma end_turn_inv:
  assumes "wf_state st"
  shows "wf_state (snd (end_turn_after_draw st p)) \<and>
         all_cards (snd (end_turn_after_draw st p)) = all_cards st"
proof (cases "p = current_player st")
  case True
  let ?s = "st\<lparr>last_drawn_card := None, can_play_drawn_card := False\<rparr>"
  have w: "wf_state ?s" using assms by (simp add: wf_state_def)
  have a: "all_cards ?s = all_cards st" by (simp add: all_cards_def)
  have "end_turn_after_draw st p = (Inr True, snd (advance_turn ?s))"
    using True advance_turn_wf(1)[OF w]
    by (cases "advance_turn ?s") (simp add: end_turn_after_draw_def)
  with advance_turn_wf(2,3)[OF w] a show ?thesis by simp
next
  case False
  with assms show ?thesis by (simp add: end_turn_after_draw_def)
qed

lemma play_drawn_card_inv:
  assumes "wf_state st"
  shows "wf_state (snd (play_drawn_card st p col)) \<and>
         all_cards (snd (play_drawn_card st p col)) = all_cards st"
proof (cases "p = current_player st")
  case True
  then have l: "nat p < length (player_hands st)" using assms by (auto simp: wf_state_def)
  have w: "\<And>crd hand. wf_state (after_play (with_color st crd col) p crd hand)"
    using assms True by (intro wf_after_play) (simp_all add: wf_with_color with_color_frame)
  have a: "\<And>crd. crd \<in> set (player_hands st ! nat p) \<Longrightarrow>
     all_cards (after_play (with_color st crd col) p crd (remove1 crd (player_hands st ! nat p)))
       = all_cards st"
    using all_cards_after_play[of p "with_color st crd col" for crd] l
    by (simp add: with_color_frame all_cards_with_color)
  show ?thesis
    using assms w a True
    by (auto simp: play_drawn_card_wf wf_clear_drawn all_cards_clear_drawn wf_with_color
        all_cards_with_color split: option.split)
next
  case False
  with assms show ?thesis by (simp add: play_drawn_card_def)
qed


lemma apply_action_play_inv:
  assumes "wf_state st"
  shows "wf_state (snd (apply_action shuf st p ''play'' (Some crd) col)) \<and>
         all_cards (snd (apply_action shuf st p ''play'' (Some crd) col)) = all_cards st"
proof (cases "p = current_player st")
  case True
  then have l: "nat p < length (player_hands st)" using assms by (auto simp: wf_state_def)
  have w: "\<And>hand. wf_state (after_play (with_color st crd col) p crd hand)"
    using assms True by (intro wf_after_play) (simp_all add: wf_with_color with_color_frame)
  have a: "crd \<in> set (player_hands st ! nat p) \<Longrightarrow>
     all_cards (after_play (with_color st crd col) p crd (remove1 crd (player_hands st ! nat p)))
       = all_cards st"
    using all_cards_after_play[of p "with_color st crd col" crd] l
    by (simp add: with_color_frame all_cards_with_color)
  obtain legal where "apply_action shuf st p ''play'' (Some crd) col =
       (if game_over st \<or> p \<noteq> current_player st \<or> \<not> listed_as_play legal crd \<or>
           (is_wild_type crd \<and> (col = None \<or> col = Some WILD))
        then (Inr False, st)
        else if crd \<in> set (player_hands st ! nat p)
        then (Inr True, after_play (with_color st crd col) p crd (remove1 crd (player_hands st ! nat p)))
        else (Inl ValueError, with_color st crd col))"
    using apply_action_play_wf[OF assms, of shuf p crd col] by blast
  then show ?thesis
    using assms w a by (auto simp: wf_with_color all_cards_with_color)
next
  case False
  with assms show ?thesis by (simp add: apply_action_def)
qed

lemma draw_with_option_inv:
  assumes "wf_state st" "is_perm shuf"
  shows "wf_state (snd (draw_with_option shuf st p)) \<and>
         all_cards (snd (draw_with_option shuf st p)) = all_cards st"
proof (cases "p = current_player st")
  case False
  with assms show ?thesis by (simp add: draw_with_option_def)
next
  case True
  show ?thesis
  proof (cases "draw_pile_count st > 0")
    case c: True
    obtain s1 where r: "wf_state s1" "draw_frame st s1" "all_cards s1 = all_cards st"
      "draw_with_option shuf st p =
             (Inr (None, False),
              s1\<lparr>draw_pile_count := 0, turn_count := turn_count st + 1,
                  current_player := (current_player st + direction st) mod num_players st\<rparr>)"
      using draw_chain[OF assms(1) True assms(2) c] by blast
    have "num_players s1 = num_players st" using r(2) by (simp add: draw_frame_def)
    then show ?thesis
      using r(1,3) by (simp add: r(4) wf_state_def all_cards_def)
  next
    case c: False
    obtain x s1 where d: "draw_card shuf st p = (Inr x, s1)" "wf_state s1"
        "all_cards s1 = all_cards st"
      using draw_card_wf[OF assms(1) True assms(2)] by blast
    let ?play = "case x of None \<Rightarrow> False | Some crd \<Rightarrow> can_play_card s1 crd (get_top_card s1) False"
    show ?thesis
    proof (cases ?play)
      case True
      then have "draw_with_option shuf st p =
        (Inr (x, True), s1\<lparr>last_drawn_card := x, can_play_drawn_card := True\<rparr>)"
        using \<open>p = current_player st\<close> c d(1) by (simp add: draw_with_option_def)
      then show ?thesis using d(2,3) by (simp add: wf_state_def all_cards_def)
    next
      case False
      have "draw_with_option shuf st p =
        (Inr (x, False), (snd (advance_turn s1))\<lparr>last_drawn_card := None, can_play_drawn_card := False\<rparr>)"
        using \<open>p = current_player st\<close> c d(1) False advance_turn_wf(1)[OF d(2)]
        by (cases "advance_turn s1") (simp add: draw_with_option_def)
      then show ?thesis
        using advance_turn_wf(2,3)[OF d(2)] d(3) by (simp add: wf_state_def all_cards_def)
    qed
  qed
qed

lemma apply_action_inv:
  assumes "wf_state st" "is_perm shuf"
  shows "wf_state (snd (apply_action shuf st p action crd_opt col)) \<and>
         all_cards (snd (apply_action shuf st p action crd_opt col)) = all_cards st"
proof -
  consider (stop) "game_over st \<or> p \<noteq> current_player st"
    | (draw) "\<not> game_over st" "p = current_player st" "action = ''draw''"
    | (play) crd where "\<not> game_over st" "p = current_player st" "action = ''play''"
        "crd_opt = Some crd"
    | (other) "\<not> game_over st" "p = current_player st" "action \<noteq> ''draw''"
        "\<not> (action = ''play'' \<and> crd_opt \<noteq> None)"
    by (cases crd_opt) auto
  then show ?thesis
  proof cases
    case stop
    with assms(1) show ?thesis by (auto simp: apply_action_def)
  next
    case draw
    let ?d = "draw_with_option shuf st p"
    have i: "wf_state (snd ?d)" "all_cards (snd ?d) = all_cards st"
      using draw_with_option_inv[OF assms] by simp_all
    have e: "wf_state (snd (end_turn_after_draw (snd ?d) p))"
        "all_cards (snd (end_turn_after_draw (snd ?d) p)) = all_cards st"
      using end_turn_inv[OF i(1)] i(2) by simp_all
    have "snd (apply_action shuf st p action crd_opt col) = snd ?d \<or>
          snd (apply_action shuf st p action crd_opt col) = snd (end_turn_after_draw (snd ?d) p)"
      using draw by (auto simp: apply_action_def split: prod.splits sum.splits)
    with i e show ?thesis by auto
  next
    case play
    with apply_action_play_inv[OF assms(1)] show ?thesis by simp
  next
    case other
    with assms(1) show ?thesis by (auto simp: apply_action_def)
  qed
qed

section \<open>Initialisation: the deal\<close>

lemma length_create_deck: "length create_deck = 108"
  by code_simp

lemma unsuitable_in_deck: "length (filter unsuitable_start create_deck) = 32"
  by code_simp

lemma butlast_take_length: "butlast d = take (length d - 1) d"
  by (simp add: butlast_conv_take)

lemma deal_round_props:
  assumes "\<forall>p\<in>set ps. p < length h"
  shows "fst (deal_round ps (d, h)) = take (length d - length ps) d \<and>
         length (snd (deal_round ps (d, h))) = length h \<and>
         mset (fst (deal_round ps (d, h))) + mset (concat (snd (deal_round ps (d, h))))
           = mset d + mset (concat h)"
  using assms
proof (induction ps arbitrary: d h)
  case Nil
  then show ?case by simp
next
  case (Cons p ps)
  show ?case
  proof (cases "d = []")
    case True
    with Cons.IH[of h "[]"] Cons.prems show ?thesis by auto
  next
    case False
    let ?h = "h[p := h ! p @ [last d]]"
    have p: "p < length h" using Cons.prems by simp
    let ?r = "deal_round ps (butlast d, ?h)"
    have pre: "\<forall>q\<in>set ps. q < length ?h" using Cons.prems by simp
    note ih = Cons.IH[OF pre, of "butlast d"]
    have ih1: "fst ?r = take (length (butlast d) - length ps) (butlast d)"
      and ih2: "length (snd ?r) = length ?h"
      and ih3: "mset (fst ?r) + mset (concat (snd ?r)) = mset (butlast d) + mset (concat ?h)"
      using ih by blast+
    have t: "take (length (butlast d) - length ps) (butlast d) = take (length d - length (p # ps)) d"
      by (simp add: butlast_conv_take min_def)
    have m: "mset (butlast d) + mset (concat ?h) = mset d + mset (concat h)"
      using mset_last_butlast[OF False] mset_concat_append[OF p, of "last d"] by simp
    have e: "deal_round (p # ps) (d, h) = ?r" using False by simp
    show ?thesis unfolding e using ih1 ih2 ih3 t m by simp
  qed
qed

lemma deal_props:
  assumes "length h = n"
  shows "fst (deal k n (d, h)) = take (length d - k * n) d \<and>
         length (snd (deal k n (d, h))) = n \<and>
         mset (fst (deal k n (d, h))) + mset (concat (snd (deal k n (d, h))))
           = mset d + mset (concat h)"
  using assms
proof (induction k arbitrary: d h)
  case 0
  then show ?case by simp
next
  case (Suc k)
  obtain d1 h1 where r: "deal_round [0..<n] (d, h) = (d1, h1)" by (cases "deal_round [0..<n] (d, h)")
  have a: "\<forall>p\<in>set [0..<n]. p < length h" using Suc.prems by simp
  have p: "d1 = take (length d - n) d" "length h1 = n"
       "mset d1 + mset (concat h1) = mset d + mset (concat h)"
    using deal_round_props[OF a, of d] r Suc.prems by auto
  have "length d1 = length d - n" by (simp add: p(1))
  then have "take (length d1 - k * n) d1 = take (length d - n - k * n) (take (length d - n) d)"
    by (simp add: p(1))
  also have "\<dots> = take (length d - n - k * n) d" by (simp add: min_def)
  also have "length d - n - k * n = length d - Suc k * n" by simp
  finally have t: "take (length d1 - k * n) d1 = take (length d - Suc k * n) d" .
  note ih = Suc.IH[OF p(2), of d1]
  have e: "deal (Suc k) n (d, h) = deal k n (d1, h1)" using r by simp
  show ?case unfolding e using ih t p(3) by auto
qed


lemma find_start_total:
  assumes "\<exists>x\<in>set d. \<not> unsuitable_start x"
  shows "\<exists>t d'. find_start top_card d = Some (t, d') \<and> mset (t # d') = mset (top_card # d) \<and>
           length d' = length d \<and> (\<not> unsuitable_start t \<or> length d \<le> 1)"
  using assms
proof (induction "length (takeWhile unsuitable_start (rev d))" arbitrary: top_card d rule: less_induct)
  case less
  show ?case
  proof (cases "unsuitable_start top_card \<and> length d > 1")
    case False
    then have "find_start top_card d = Some (top_card, d)"
      by (subst find_start.simps) auto
    with False show ?thesis by auto
  next
    case True
    then have ne: "d \<noteq> []" by auto
    let ?d = "top_card # butlast d"
    have step: "find_start top_card d = find_start (last d) ?d"
      using True ne by (subst find_start.simps) auto
    have ms: "mset (last d # ?d) = mset (top_card # d)"
      using mset_last_butlast[OF ne] by simp
    have len: "length ?d = length d" using ne by simp
    show ?thesis
    proof (cases "unsuitable_start (last d)")
      case False
      then have "find_start (last d) ?d = Some (last d, ?d)"
        by (subst find_start.simps) auto
      with step ms len False show ?thesis by auto
    next
      case u: True
      have ex: "\<exists>x\<in>set (butlast d). \<not> unsuitable_start x"
        using less.prems u ne by (metis append_butlast_last_id set_ConsD set_append Un_iff list.set(1) empty_iff list.simps(15) insert_iff)
      then have ex': "\<exists>x\<in>set ?d. \<not> unsuitable_start x" by auto
      have "rev d = rev (butlast d @ [last d])" using ne by simp
      also have "\<dots> = last d # rev (butlast d)" by (simp only: rev_append rev.simps append.simps)
      finally have rd: "rev d = last d # rev (butlast d)" .
      have m1: "takeWhile unsuitable_start (rev d) =
          last d # takeWhile unsuitable_start (rev (butlast d))"
        unfolding rd using u by simp
      obtain x where x: "x \<in> set (rev (butlast d))" "\<not> unsuitable_start x"
        using ex by auto
      have m2: "takeWhile unsuitable_start (rev (butlast d) @ [top_card])
                  = takeWhile unsuitable_start (rev (butlast d))"
        using takeWhile_append1[of x "rev (butlast d)" unsuitable_start "[top_card]"] x by simp
      have dec: "length (takeWhile unsuitable_start (rev ?d))
                  < length (takeWhile unsuitable_start (rev d))"
        by (simp add: m1 m2)
      obtain t d' where r: "find_start (last d) ?d = Some (t, d')"
          "mset (t # d') = mset (last d # ?d)" "length d' = length ?d"
          "\<not> unsuitable_start t \<or> length ?d \<le> 1"
        using less.hyps[OF dec ex', of "last d"] by blast
      with step ms len show ?thesis by auto
    qed
  qed
qed


lemma filter_length_mono:
  assumes "mset xs \<subseteq># mset ys"
  shows "length (filter P xs) \<le> length (filter P ys)"
proof -
  have "filter_mset P (mset xs) \<subseteq># filter_mset P (mset ys)"
    using assms by (rule multiset_filter_mono)
  then have "size (filter_mset P (mset xs)) \<le> size (filter_mset P (mset ys))"
    by (rule size_mset_mono)
  then show ?thesis by (simp only: mset_filter[symmetric] size_mset)
qed

lemma filter_length_perm:
  "mset xs = mset ys \<Longrightarrow> length (filter P xs) = length (filter P ys)"
  by (metis mset_filter size_mset)

text \<open>What \<open>initialize_game\<close> returns on the state the constructor builds.\<close>

lemma initialize_game_props:
  assumes "2 \<le> n" "n \<le> 4" "is_perm shuf" "UnoGameState_init n = Inr st0"
  shows "\<exists>st t. initialize_game shuf st0 = Some st \<and>
           length (player_hands st) = nat n \<and>
           length (concat (player_hands st)) = 7 * nat n \<and>
           discard_pile st = [t] \<and> \<not> unsuitable_start t \<and>
           length (deck st) = 108 - 7 * nat n - 1 \<and>
           wf_state st \<and> all_cards st = mset create_deck \<and>
           pending_color st = None \<and> draw_pile_count st = 0 \<and> \<not> game_over st"
proof -
  define N where "N = nat n"
  have N: "2 \<le> N" "N \<le> 4" using assms(1,2) by (simp_all add: N_def)
  have st0: "st0 = \<lparr>num_players = n, current_player = 0, direction = 1, game_over = False,
                winner = None, draw_pile_count = 0, skip_next = False, pending_color = None,
                last_drawn_card = None, can_play_drawn_card = False, deck = [],
                discard_pile = [], player_hands = [], turn_count = 0,
                players_uno = replicate (nat n) False\<rparr>"
    using assms(1,2,4) by (simp add: UnoGameState_init_def)
  define d0 where "d0 = shuf create_deck"
  have l0: "length d0 = 108" and m0: "mset d0 = mset create_deck"
    using assms(3) by (simp_all add: d0_def is_perm_length is_perm_mset length_create_deck)
  obtain d1 h1 where dl: "deal 7 N (d0, replicate N []) = (d1, h1)"
    by (cases "deal 7 N (d0, replicate N [])")
  have dp: "d1 = take (length d0 - 7 * N) d0" "length h1 = N"
       "mset d1 + mset (concat h1) = mset d0"
    using deal_props[of "replicate N []" N 7 d0] dl by auto
  have l1: "length d1 = 108 - 7 * N" using l0 by (simp add: dp(1))
  have "size (mset d1) + size (mset (concat h1)) = size (mset d0)"
    using dp(3) by (metis size_union)
  then have lh: "length (concat h1) = 7 * N" using l0 l1 N by simp
  have ne: "d1 \<noteq> []" using l1 N by auto
  let ?rest = "butlast d1"
  have lr: "length ?rest = 107 - 7 * N" using l1 by simp
  have sub: "mset ?rest \<subseteq># mset d0"
  proof -
    have "mset ?rest \<subseteq># mset d1" using mset_last_butlast[OF ne] by simp
    moreover have "mset d1 \<subseteq># mset d0" using dp(3) by (metis mset_subset_eq_add_left)
    ultimately show ?thesis by (rule subset_mset.order_trans)
  qed
  have ex: "\<exists>x\<in>set ?rest. \<not> unsuitable_start x"
  proof (rule ccontr)
    assume "\<not> (\<exists>x\<in>set ?rest. \<not> unsuitable_start x)"
    then have "filter unsuitable_start ?rest = ?rest" by (simp add: filter_id_conv)
    then have "length ?rest = length (filter unsuitable_start ?rest)" by simp
    also have "\<dots> \<le> length (filter unsuitable_start d0)" using sub by (rule filter_length_mono)
    also have "\<dots> = 32" using filter_length_perm[OF m0] unsuitable_in_deck by simp
    finally show False using lr N by simp
  qed
  obtain t d2 where fs: "find_start (last d1) ?rest = Some (t, d2)"
      "mset (t # d2) = mset (last d1 # ?rest)" "length d2 = length ?rest"
      "\<not> unsuitable_start t \<or> length ?rest \<le> 1"
    using find_start_total[OF ex, of "last d1"] by blast
  have good: "\<not> unsuitable_start t" using fs(4) lr N by auto
  define st where "st = st0\<lparr>deck := d2, player_hands := h1, discard_pile := [t],
                            draw_pile_count := 0, skip_next := False, pending_color := None,
                            last_drawn_card := None, can_play_drawn_card := False\<rparr>"
  have r: "initialize_game shuf st0 = Some st"
    unfolding initialize_game_def Let_def
    using dl ne fs(1) by (simp add: st0 N_def[symmetric] d0_def[symmetric] st_def)
  have ac: "all_cards st = mset create_deck"
  proof -
    have "mset (t # d2) = mset d1" using fs(2) mset_last_butlast[OF ne] by simp
    then have "mset d2 + {#t#} + mset (concat h1) = mset d0" using dp(3) by simp
    then show ?thesis by (simp add: all_cards_def st_def m0)
  qed
  have "wf_state st" using assms(1,2) dp(2) by (simp add: wf_state_def st_def st0 N_def)
  moreover have "length (deck st) = 108 - 7 * nat n - 1"
    using fs(3) lr N by (simp add: st_def N_def)
  ultimately show ?thesis
    using r lh good ac dp(2) by (simp add: st_def st0 N_def)
qed

text \<open>
  Claim C8. For every number of players \<open>n\<close> from 2 to 4 and every permutation that the
  shuffle applies, the constructor returns a state and \<open>initialize_game\<close> returns on it;
  afterwards the hands together hold \<open>7 * n\<close> cards, the discard pile holds exactly one
  card, which is not WILD-coloured and is no SKIP, REVERSE or DRAW\_TWO, and the deck holds
  \<open>108 - 7 * n - 1\<close> cards, the deck that \<open>create_deck\<close> builds having 108.
\<close>

theorem initialize_game_deal:
  assumes "2 \<le> n" and "n \<le> 4" and "is_perm shuf"
  shows "\<exists>st0 st t. UnoGameState_init n = Inr st0 \<and> initialize_game shuf st0 = Some st \<and>
           length (concat (player_hands st)) = 7 * nat n \<and>
           discard_pile st = [t] \<and> color t \<noteq> WILD \<and>
           ctype t \<noteq> SKIP \<and> ctype t \<noteq> REVERSE \<and> ctype t \<noteq> DRAW_TWO \<and>
           length (deck st) = 108 - 7 * nat n - 1 \<and>
           length create_deck = 108"
proof -
  obtain st0 where i: "UnoGameState_init n = Inr st0"
    using assms(1,2) by (simp add: UnoGameState_init_def)
  from initialize_game_props[OF assms i] length_create_deck i show ?thesis
    unfolding unsuitable_start_def by blast
qed

theorem initialize_game_deal_witness:
  "\<exists>st0 st t. UnoGameState_init 2 = Inr st0 \<and> initialize_game id st0 = Some st \<and>
           length (concat (player_hands st)) = 14 \<and>
           discard_pile st = [t] \<and> color t \<noteq> WILD \<and>
           ctype t \<noteq> SKIP \<and> ctype t \<noteq> REVERSE \<and> ctype t \<noteq> DRAW_TWO \<and>
           length (deck st) = 93 \<and>
           length create_deck = 108"
  using initialize_game_deal[of 2 id] is_perm_id by simp

section \<open>Card conservation\<close>

lemma unshuffled_eval:
  "UnoGameState_init 2 = Inr
     \<lparr>num_players = 2, current_player = 0, direction = 1, game_over = False,
                winner = None, draw_pile_count = 0, skip_next = False, pending_color = None,
                last_drawn_card = None, can_play_drawn_card = False, deck = [],
                discard_pile = [], player_hands = [], turn_count = 0,
                players_uno = [False, False]\<rparr>"
  "initialize_game id \<lparr>num_players = 2, current_player = 0, direction = 1, game_over = False,
                winner = None, draw_pile_count = 0, skip_next = False, pending_color = None,
                last_drawn_card = None, can_play_drawn_card = False, deck = [],
                discard_pile = [], player_hands = [], turn_count = 0,
                players_uno = [False, False]\<rparr> = Some unshuffled_game"
  by code_simp+

lemma reachable_unshuffled: "reachable unshuffled_game"
  by (rule reachable.start[OF unshuffled_eval(1) is_perm_id unshuffled_eval(2)])

lemma init_range: "UnoGameState_init n = Inr st0 \<Longrightarrow> 2 \<le> n \<and> n \<le> 4"
  by (simp add: UnoGameState_init_def split: if_splits)

lemma reachable_inv:
  "reachable st \<Longrightarrow> wf_state st \<and> all_cards st = mset create_deck"
proof (induction rule: reachable.induct)
  case (start n st0 shuf st)
  from init_range[OF start(1)] have "2 \<le> n" "n \<le> 4" by simp_all
  from initialize_game_props[OF this start(2) start(1)] start(3) show ?case by auto
next
  case (by_apply_action st shuf p action crd_opt col)
  with apply_action_inv[of st shuf p action crd_opt col] show ?case by simp
next
  case (by_draw_with_option st shuf p)
  with draw_with_option_inv[of st shuf p] show ?case by simp
next
  case (by_play_drawn_card st p col)
  with play_drawn_card_inv[of st p col] show ?case by simp
next
  case (by_end_turn_after_draw st p)
  with end_turn_inv[of st p] show ?case by simp
qed

lemma reshuffle_moves:
  assumes "is_perm shuf" "deck s = []" "length (discard_pile s) > 1"
  shows "mset (deck (reshuffle_deck shuf s)) = mset (butlast (discard_pile s)) \<and>
         discard_pile (reshuffle_deck shuf s) = [last (discard_pile s)] \<and>
         player_hands (reshuffle_deck shuf s) = player_hands s \<and>
         all_cards (reshuffle_deck shuf s) = all_cards s"
proof -
  have "discard_pile s \<noteq> []" using assms(3) by auto
  from mset_last_butlast[OF this] assms show ?thesis
    by (simp add: reshuffle_deck_def all_cards_def is_perm_mset)
qed

text \<open>
  Claim C9. In every state of a game (what \<open>initialize_game\<close> returns and what any
  sequence of mutator calls makes of it), the deck, the discard pile and the hands
  together hold exactly the 108 card objects of \<open>create_deck\<close>, and each of
  \<open>apply_action\<close>, \<open>draw_with_option\<close>, \<open>play_drawn_card\<close> and \<open>end_turn_after_draw\<close> leaves this
  multiset as it is, whatever it returns. A reshuffle, which happens on an empty deck
  with more than one card on the discard pile, makes the deck a permutation of the
  discard pile without its top card and leaves that top card as the discard pile.
\<close>

theorem card_conservation:
  assumes "reachable st" and "is_perm shuf"
  shows "all_cards st = mset create_deck \<and>
         all_cards (snd (apply_action shuf st p action crd_opt col)) = all_cards st \<and>
         all_cards (snd (draw_with_option shuf st p)) = all_cards st \<and>
         all_cards (snd (play_drawn_card st p col)) = all_cards st \<and>
         all_cards (snd (end_turn_after_draw st p)) = all_cards st \<and>
         (deck s = [] \<and> length (discard_pile s) > 1 \<longrightarrow>
            mset (deck (reshuffle_deck shuf s)) = mset (butlast (discard_pile s)) \<and>
            discard_pile (reshuffle_deck shuf s) = [last (discard_pile s)] \<and>
            player_hands (reshuffle_deck shuf s) = player_hands s \<and>
            all_cards (reshuffle_deck shuf s) = all_cards s)"
proof -
  have w: "wf_state st" and a: "all_cards st = mset create_deck"
    using reachable_inv[OF assms(1)] by simp_all
  show ?thesis
    using a apply_action_inv[OF w assms(2)] draw_with_option_inv[OF w assms(2)]
      play_drawn_card_inv[OF w] end_turn_inv[OF w] reshuffle_moves[OF assms(2)]
    by blast
qed

theorem card_conservation_witness:
  "all_cards unshuffled_game = mset create_deck \<and>
   all_cards (snd (apply_action id unshuffled_game 0 ''draw'' None None)) = all_cards unshuffled_game \<and>
   all_cards (snd (draw_with_option id unshuffled_game 0)) = all_cards unshuffled_game \<and>
   all_cards (snd (play_drawn_card unshuffled_game 0 None)) = all_cards unshuffled_game \<and>
   all_cards (snd (end_turn_after_draw unshuffled_game 0)) = all_cards unshuffled_game \<and>
   deck after_wild = [] \<and> length (discard_pile after_wild) > 1 \<and>
   mset (deck (reshuffle_deck id after_wild)) = mset (butlast (discard_pile after_wild)) \<and>
   discard_pile (reshuffle_deck id after_wild) = [last (discard_pile after_wild)] \<and>
   all_cards (reshuffle_deck id after_wild) = all_cards after_wild"
proof -
  have e: "deck after_wild = [] \<and> length (discard_pile after_wild) > 1" by code_simp
  note t = card_conservation[OF reachable_unshuffled is_perm_id,
      of 0 "''draw''" None None after_wild]
  show ?thesis using t e by simp
qed

section \<open>Legal actions\<close>

lemma draw_entries:
  "length (filter (\<lambda>a. fst a = ''draw'')
       (map (\<lambda>crd. (''play'', Some crd)) xs @ [(''draw'', None)])) = 1"
  by (induction xs) simp_all

lemma legal_actions_shape:
  assumes "wf_state st" "p = current_player st"
  shows "get_legal_actions st p =
     Inr (map (\<lambda>crd. (''play'', Some crd))
            (filter (\<lambda>crd. if draw_pile_count st > 0
                             then get_top_card st \<noteq> None \<and> can_play_card st crd (get_top_card st) True
                             else can_play_card st crd (get_top_card st) False)
                    (player_hands st ! nat p))
          @ [(''draw'', None)])"
  using assms py_index_wf[OF assms(1)] by (simp add: get_legal_actions_def Let_def)

lemma can_play_characterised:
  assumes "get_top_card st = Some tc" "0 \<le> draw_pile_count st"
    and "pending_color st = None \<or>
         (draw_pile_count st = 0 \<and> color (last (discard_pile st)) = WILD \<and>
          pending_color st \<noteq> Some WILD)"
  shows "(if draw_pile_count st > 0
          then get_top_card st \<noteq> None \<and> can_play_card st c (get_top_card st) True
          else can_play_card st c (get_top_card st) False)
         \<longleftrightarrow>
         (draw_pile_count st = 0 \<and> matches c tc \<and>
            (pending_color st = None \<or> Some (color c) = pending_color st \<or> color c = WILD))
         \<or> (draw_pile_count st > 0 \<and> (color c = WILD \<or> spec_continues_chain tc c))"
proof (cases "pending_color st")
  case None
  with assms(1,2) show ?thesis
    by (auto simp: can_play_card_def spec_continues_chain_def matches_def)
next
  case (Some col)
  with assms(3) have z: "draw_pile_count st = 0" "color (last (discard_pile st)) = WILD"
    "col \<noteq> WILD" by auto
  have "color tc = col"
    using assms(1) Some z by (auto simp: get_top_card_def Let_def split: if_splits)
  with assms(1) Some z show ?thesis
    by (auto simp: can_play_card_def matches_def)
qed


lemma reachable_stacked: "reachable stacked"
  unfolding stacked_def by (rule reachable.by_apply_action[OF reachable_unshuffled is_perm_id])

lemma stacked_eval:
  "let s = stacked in
     wf_state s \<and> current_player s = 1 \<and> draw_pile_count s = 2 \<and> pending_color s = None \<and>
     wild_102 \<in> set (player_hands s ! 1) \<and>
     get_top_card s = Some \<lparr>color = YELLOW, cvalue = ''+2'', ctype = DRAW_TWO\<rparr> \<and>
     get_legal_actions s 1 =
       Inr [(''play'', Some (alloc 106 (mk WILD ''+4'' WILD_DRAW_FOUR))),
            (''play'', Some (alloc 104 (mk WILD ''+4'' WILD_DRAW_FOUR))),
            (''play'', Some wild_102),
            (''play'', Some (alloc 100 (mk WILD ''W'' WILD_CARD))),
            (''play'', Some (alloc 98 (mk YELLOW ''+2'' DRAW_TWO))),
            (''draw'', None)] \<and>
     \<not> spec_legal s \<lparr>color = YELLOW, cvalue = ''+2'', ctype = DRAW_TWO\<rparr> wild_102"
  by code_simp

lemmas stacked_facts = stacked_eval[unfolded Let_def]

text \<open>
  Claim C2. A card of the current player's hand is listed as a play exactly when the rule
  of the specification (\<open>spec_legal\<close>) admits it, and during a draw chain only a card that
  continues the chain is admitted. This fails in a state of a real game: in \<open>stacked\<close> a
  chain on a yellow DRAW\_TWO is pending, player 1 holds the plain WILD \<open>wild_102\<close>, which
  does not continue the chain, and \<open>get_legal_actions\<close> lists it as a play, with the other
  WILD-coloured cards of the hand: \<open>_can_play_card\<close> returns \<open>True\<close> for a WILD-coloured card
  before it reaches its draw-chain rules.
\<close>

theorem wild_listed_on_draw_chain:
  "reachable stacked \<and> current_player stacked = 1 \<and> draw_pile_count stacked = 2 \<and>
   wild_102 \<in> set (player_hands stacked ! 1) \<and>
   get_top_card stacked = Some \<lparr>color = YELLOW, cvalue = ''+2'', ctype = DRAW_TWO\<rparr> \<and>
   get_legal_actions stacked 1 =
       Inr [(''play'', Some (alloc 106 (mk WILD ''+4'' WILD_DRAW_FOUR))),
            (''play'', Some (alloc 104 (mk WILD ''+4'' WILD_DRAW_FOUR))),
            (''play'', Some wild_102),
            (''play'', Some (alloc 100 (mk WILD ''W'' WILD_CARD))),
            (''play'', Some (alloc 98 (mk YELLOW ''+2'' DRAW_TWO))),
            (''draw'', None)] \<and>
   \<not> spec_legal stacked \<lparr>color = YELLOW, cvalue = ''+2'', ctype = DRAW_TWO\<rparr> wild_102"
  using reachable_stacked stacked_facts by simp

text \<open>
  What \<open>get_legal_actions\<close> does list. In a well-formed state with a non-empty discard pile
  whose \<open>pending_color\<close> is absent, or is a real colour on a WILD-coloured top card with no
  chain pending, a card \<open>c\<close> of the current player's hand is listed as a play exactly when
  either no chain is pending and \<open>c\<close> matches the effective top card and (no colour is
  pending or \<open>c\<close> has the pending colour or is WILD-coloured), or a chain is pending and
  \<open>c\<close> is WILD-coloured or continues the chain; and the list holds exactly one draw action.
  The rule of the specification is departed from by the WILD-coloured cards during a chain
  and by nothing else.
\<close>

theorem legal_actions_characterised:
  assumes "wf_state st" and "p = current_player st"
    and "c \<in> set (player_hands st ! nat p)"
    and "get_top_card st = Some tc" and "0 \<le> draw_pile_count st"
    and "pending_color st = None \<or>
         (draw_pile_count st = 0 \<and> color (last (discard_pile st)) = WILD \<and>
          pending_color st \<noteq> Some WILD)"
  shows "\<exists>legal. get_legal_actions st p = Inr legal \<and>
           ((''play'', Some c) \<in> set legal \<longleftrightarrow>
              (draw_pile_count st = 0 \<and> matches c tc \<and>
                 (pending_color st = None \<or> Some (color c) = pending_color st \<or> color c = WILD))
              \<or> (draw_pile_count st > 0 \<and> (color c = WILD \<or> spec_continues_chain tc c))) \<and>
           length (filter (\<lambda>a. fst a = ''draw'') legal) = 1"
proof -
  let ?ok = "\<lambda>crd. if draw_pile_count st > 0
                 then get_top_card st \<noteq> None \<and> can_play_card st crd (get_top_card st) True
                 else can_play_card st crd (get_top_card st) False"
  let ?legal = "map (\<lambda>crd. (''play'', Some crd)) (filter ?ok (player_hands st ! nat p))
                 @ [(''draw'', None)]"
  have s: "get_legal_actions st p = Inr ?legal"
    using legal_actions_shape[OF assms(1,2)] .
  have "(''play'', Some c) \<in> set ?legal \<longleftrightarrow> ?ok c"
    using assms(3) by auto
  then have m: "(''play'', Some c) \<in> set ?legal \<longleftrightarrow>
              (draw_pile_count st = 0 \<and> matches c tc \<and>
                 (pending_color st = None \<or> Some (color c) = pending_color st \<or> color c = WILD))
              \<or> (draw_pile_count st > 0 \<and> (color c = WILD \<or> spec_continues_chain tc c))"
    using can_play_characterised[OF assms(4,5,6), of c] by simp
  have d: "length (filter (\<lambda>a. fst a = ''draw'') ?legal) = 1"
    by (rule draw_entries)
  from s m d show ?thesis by blast
qed

theorem legal_actions_characterised_witness:
  "\<exists>legal. get_legal_actions stacked 1 = Inr legal \<and>
     (''play'', Some wild_102) \<in> set legal \<and>
     length (filter (\<lambda>a. fst a = ''draw'') legal) = 1"
proof -
  have w: "wf_state stacked" and p: "1 = current_player stacked"
    and c: "wild_102 \<in> set (player_hands stacked ! nat 1)"
    and t: "get_top_card stacked = Some \<lparr>color = YELLOW, cvalue = ''+2'', ctype = DRAW_TWO\<rparr>"
    and n: "0 \<le> draw_pile_count stacked"
    and i: "pending_color stacked = None \<or>
         (draw_pile_count stacked = 0 \<and> color (last (discard_pile stacked)) = WILD \<and>
          pending_color stacked \<noteq> Some WILD)"
    using stacked_facts by simp_all
  have "color wild_102 = WILD" "0 < draw_pile_count stacked"
    using stacked_facts by (simp_all add: card_defs)
  with legal_actions_characterised[OF w p c t n i] show ?thesis by auto
qed

end
